theory Spec2Isabelle
  imports Complex_Main
begin

section \<open>Stroke animation of letterforms: a model of the drawing script\<close>

text \<open>
  The repository holds two versions of the same browser script. The later one
  (fourteen glyphs, a viewport that follows the size of the canvas element, an
  animation loop that can be cancelled) is modelled in full; of the earlier one
  (six glyphs, a fixed canvas of 600 pixels) the coordinate transform and the
  animation loop are modelled, under names that start with \<open>script_\<close>.
  The functions \<open>interpolateSegment\<close> and \<open>prepareAnimationForCharacter\<close>
  are the same text in both versions.

  The numbers of JavaScript are IEEE 754 double precision numbers. The
  coordinates of the glyph table and the arithmetic of \<open>interpolateSegment\<close>
  are modelled as such: a finite double is the real number it denotes, a decimal
  literal of the table denotes the nearest double, and every operation of the
  interpolation rounds its exact result to the nearest double, ties to even.
  The strict equality of two coordinates is then equality of reals. Overflow to
  an infinity and the values NaN and negative zero are not modelled; the results
  on interpolation below carry a bound on the size of the coordinates under
  which no operation overflows.

  The arithmetic of the viewport (scale factors, offsets, the transform to
  pixels, time stamps) is modelled over the reals without rounding; a result
  below about these quantities is a result about the script in exact arithmetic.
  Counters and indices, which the script only increments from zero, are natural
  numbers.
\<close>

subsection \<open>Double precision arithmetic\<close>

text \<open>
  Rounding of a real to the nearest integer, ties to the even one.
\<close>

definition roundHalfEven :: "real \<Rightarrow> int" where
  "roundHalfEven y =
     (let f = \<lfloor>y\<rfloor>;
          r = y - of_int f
      in if r < 1 / 2 then f
         else if 1 / 2 < r then f + 1
         else if even f then f
         else f + 1)"

text \<open>
  The binary exponent \<open>e\<close> of a nonzero real \<open>x\<close>, with
  \<open>2 ^ e \<le> \<bar>x\<bar> < 2 ^ (e + 1)\<close>, found by halving or doubling. The number
  of halvings and doublings is bounded by the exponent range of the format, so
  that the exponent of a number below the least normal double is \<open>- 1022\<close>
  (the subnormal numbers share the spacing of the least normal ones).
\<close>

fun expUp :: "nat \<Rightarrow> real \<Rightarrow> int" where
  "expUp 0 x = 0"
| "expUp (Suc n) x = (if 2 \<le> x then expUp n (x / 2) + 1 else 0)"

fun expDown :: "nat \<Rightarrow> real \<Rightarrow> int" where
  "expDown 0 x = 0"
| "expDown (Suc n) x = (if x < 1 then expDown n (2 * x) - 1 else 0)"

definition exponent :: "real \<Rightarrow> int" where
  "exponent x = (if 1 \<le> \<bar>x\<bar> then expUp 1024 \<bar>x\<bar> else expDown 1022 \<bar>x\<bar>)"

definition pow2 :: "int \<Rightarrow> real" where
  "pow2 k = (if 0 \<le> k then 2 ^ nat k else 1 / 2 ^ nat (- k))"

text \<open>
  \<open>fl x\<close> is the double nearest to \<open>x\<close>: a multiple of the unit in the last
  place of the binade of \<open>x\<close>, a significand of 53 bits. A real is a double when
  rounding leaves it unchanged.
\<close>

definition fl :: "real \<Rightarrow> real" where
  "fl x =
     (if x = 0 then 0
      else (let ulp = pow2 (exponent x - 52)
            in ulp * of_int (roundHalfEven (x / ulp))))"

subsection \<open>Points, segments and the interpolation of a segment\<close>

type_synonym point = "real \<times> real"
type_synonym segment = "point \<times> point"

text \<open>
  The body of the \<open>for\<close> loop of \<open>interpolateSegment\<close>, with the loop
  counter \<open>i\<close> and the array built so far as arguments. The quotient
  \<open>i / steps\<close>, the two differences, the two products and the two sums are
  each rounded. (For \<open>steps = 0\<close> the script divides zero by zero and pushes
  one undefined point; the callers only use the default of 20 steps.)
\<close>

function interpolate_loop :: "segment \<Rightarrow> nat \<Rightarrow> nat \<Rightarrow> point list \<Rightarrow> point list" where
  "interpolate_loop segment steps i interpolatedPoints =
     (if i \<le> steps then
        (let start = fst segment;
             end' = snd segment;
             t = fl (real i / real steps);
             x = fl (fst start + fl (t * fl (fst end' - fst start)));
             y = fl (snd start + fl (t * fl (snd end' - snd start)))
         in interpolate_loop segment steps (Suc i) (interpolatedPoints @ [(x, y)]))
      else interpolatedPoints)"
  by pat_completeness auto
termination
  by (relation "measure (\<lambda>(segment, steps, i, interpolatedPoints). Suc steps - i)") auto

declare interpolate_loop.simps [simp del]

text \<open>The optional parameter \<open>steps\<close> defaults to 20 when the caller leaves it out.\<close>

definition interpolateSegment :: "segment \<Rightarrow> nat option \<Rightarrow> point list" where
  "interpolateSegment segment steps_arg =
     (let steps = (case steps_arg of None \<Rightarrow> 20 | Some n \<Rightarrow> n)
      in interpolate_loop segment steps 0 [])"

subsection \<open>Constants of the data coordinate system\<close>

definition X_MIN :: real where "X_MIN = - 0.5"
definition X_MAX :: real where "X_MAX = 10"
definition Y_MIN :: real where "Y_MIN = - 0.5"
definition Y_MAX :: real where "Y_MAX = 10"
definition DATA_RANGE_X :: real where "DATA_RANGE_X = X_MAX - X_MIN"
definition DATA_RANGE_Y :: real where "DATA_RANGE_Y = Y_MAX - Y_MIN"
definition CHAR_WIDTH_DATA_UNITS :: real where "CHAR_WIDTH_DATA_UNITS = 7"
definition SIZE_MULTIPLIER :: real where "SIZE_MULTIPLIER = 1.8"
definition ANIMATION_INTERVAL_MS :: real where "ANIMATION_INTERVAL_MS = 10"

text \<open>The earlier version draws on a fixed canvas and ticks every 20 ms.\<close>

definition CANVAS_SIZE :: real where "CANVAS_SIZE = 600"
definition SCALE_X :: real where "SCALE_X = CANVAS_SIZE / DATA_RANGE_X"
definition SCALE_Y :: real where "SCALE_Y = CANVAS_SIZE / DATA_RANGE_Y"
definition script_ANIMATION_INTERVAL_MS :: real where "script_ANIMATION_INTERVAL_MS = 20"

subsection \<open>The glyph table\<close>

text \<open>
  \<open>CHARACTER_DRAWING_DATA\<close> maps a character to its segments in stroke order.
  Each entry of the object literal is a constant of its own here. The
  coordinates are written as in the script; \<open>literals\<close> reads each of them as
  the double that the decimal literal denotes.
\<close>

definition literals :: "segment list \<Rightarrow> segment list" where
  "literals segs =
     map (\<lambda>((x1, y1), (x2, y2)). ((fl x1, fl y1), (fl x2, fl y2))) segs"

definition glyph_A :: "segment list" where
  "glyph_A = literals
    [((6, 8), (0, 8)),
     ((0, 8), (0, 0)),
     ((0, 0), (0.75, 8)),
     ((0, 1), (1.5, 8)),
     ((0, 2), (2.25, 8)),
     ((0, 3), (3, 8)),
     ((0, 4), (3.75, 8)),
     ((0, 5), (4.5, 8)),
     ((0, 6), (5.25, 8)),
     ((0, 7), (6, 8)),
     ((6, 8), (6, 0)),
     ((6, 0), (5.25, 8)),
     ((6, 1), (4.5, 8)),
     ((6, 2), (3.75, 8)),
     ((6, 3), (3, 8)),
     ((6, 4), (2.25, 8)),
     ((6, 5), (1.5, 8)),
     ((6, 6), (0.75, 8)),
     ((6, 7), (0, 8))]"

definition glyph_B :: "segment list" where
  "glyph_B = literals
    [((6, 8), (0, 8)),
     ((0, 8), (0, 0)),
     ((0, 0), (0.75, 8)),
     ((0, 1), (1.5, 8)),
     ((0, 2), (2.25, 8)),
     ((0, 3), (3, 8)),
     ((0, 4), (3.75, 8)),
     ((0, 5), (4.5, 8)),
     ((0, 6), (5.25, 8)),
     ((0, 7), (6, 8)),
     ((6, 8), (4.8, 4)),
     ((6, 7.2), (3.6, 4)),
     ((6, 6.4), (2.4, 4)),
     ((6, 5.6), (1.2, 4)),
     ((6, 4.8), (0, 4)),
     ((0, 4), (6, 4)),
     ((6, 4), (4.8, 0)),
     ((6, 3.2), (3.6, 0)),
     ((6, 2.4), (2.4, 0)),
     ((6, 1.6), (1.2, 0)),
     ((6, 0.8), (0, 0)),
     ((0, 0), (6, 0)),
     ((6, 0), (6, 8))]"

definition glyph_C :: "segment list" where
  "glyph_C = literals
    [((0, 0), (0, 8)),
     ((0, 8), (6, 8)),
     ((6, 8), (0, 7)),
     ((5.25, 8), (0, 6)),
     ((4.5, 8), (0, 5)),
     ((3.75, 8), (0, 4)),
     ((3, 8), (0, 3)),
     ((2.25, 8), (0, 2)),
     ((1.5, 8), (0, 1)),
     ((0.75, 8), (0, 0)),
     ((0, 0), (6, 0)),
     ((6, 0), (0, 1)),
     ((5.25, 0), (0, 2)),
     ((4.5, 0), (0, 3)),
     ((3.75, 0), (0, 4)),
     ((3, 0), (0, 5)),
     ((2.25, 0), (0, 6)),
     ((1.5, 0), (0, 7)),
     ((0.75, 0), (0, 8))]"

definition glyph_D :: "segment list" where
  "glyph_D = literals
    [((6, 8), (6, 0)),
     ((6, 0), (0, 0)),
     ((0, 0), (6, 1)),
     ((0.75, 0), (6, 2)),
     ((1.5, 0), (6, 3)),
     ((2.25, 0), (6, 4)),
     ((3, 0), (6, 5)),
     ((3.75, 0), (6, 6)),
     ((4.5, 0), (6, 7)),
     ((5.25, 0), (6, 8)),
     ((6, 8), (0, 8)),
     ((0, 8), (6, 7)),
     ((0.75, 8), (6, 6)),
     ((1.5, 8), (6, 5)),
     ((2.25, 8), (6, 4)),
     ((3, 8), (6, 3)),
     ((3.75, 8), (6, 2)),
     ((4.5, 8), (6, 1)),
     ((5.25, 8), (6, 0))]"

definition glyph_E :: "segment list" where
  "glyph_E = literals
    [((0, 4), (6, 4)),
     ((6, 4), (0, 3.6)),
     ((4.8, 4), (0, 3.2)),
     ((3.6, 4), (0, 2.8)),
     ((2.4, 4), (0, 2.4)),
     ((1.2, 4), (0, 2)),
     ((0, 2), (1.2, 0)),
     ((0, 1.6), (2.4, 0)),
     ((0, 1.2), (3.6, 0)),
     ((0, 0.8), (4.8, 0)),
     ((0, 0.4), (6, 0)),
     ((6, 0), (0, 0)),
     ((0, 0), (0, 4)),
     ((0, 4), (0, 8)),
     ((0, 8), (6, 8)),
     ((6, 8), (0, 7.6)),
     ((4.8, 8), (0, 7.2)),
     ((3.6, 8), (0, 6.8)),
     ((2.4, 8), (0, 6.4)),
     ((1.2, 8), (0, 6)),
     ((0, 6), (1.2, 4)),
     ((0, 5.6), (2.4, 4)),
     ((0, 5.2), (3.6, 4)),
     ((0, 4.8), (4.8, 4)),
     ((0, 4.4), (6, 4))]"

definition glyph_F :: "segment list" where
  "glyph_F = literals
    [((0, 0), (0, 8)),
     ((0, 8), (6, 8)),
     ((6, 8), (0, 7)),
     ((5.25, 8), (0, 6)),
     ((4.5, 8), (0, 5)),
     ((3.75, 8), (0, 4)),
     ((3, 8), (0, 3)),
     ((2.25, 8), (0, 2)),
     ((1.5, 8), (0, 1)),
     ((0.75, 8), (0, 0)),
     ((0, 0), (1.5, 4)),
     ((0, 1), (3, 4)),
     ((0, 2), (4.5, 4)),
     ((0, 3), (6, 4)),
     ((6, 4), (0, 4))]"

definition glyph_G :: "segment list" where
  "glyph_G = literals
    [((0, 8), (0, 0)),
     ((0, 0), (6, 0)),
     ((6, 0), (6, 4)),
     ((6, 4), (3, 4)),
     ((3, 4), (6, 3)),
     ((3.75, 4), (6, 2)),
     ((4.5, 4), (6, 1)),
     ((5.25, 4), (6, 0)),
     ((6, 0), (0, 1)),
     ((5.25, 0), (0, 2)),
     ((4.5, 0), (0, 3)),
     ((3.75, 0), (0, 4)),
     ((3, 0), (0, 5)),
     ((2.25, 0), (0, 6)),
     ((1.5, 0), (0, 7)),
     ((0.75, 0), (0, 8)),
     ((0, 8), (6, 8)),
     ((6, 8), (0, 7.2)),
     ((4.8, 8), (0, 6.4)),
     ((3.6, 8), (0, 5.6)),
     ((2.4, 8), (0, 4.8)),
     ((1.2, 8), (0, 4))]"

definition glyph_H :: "segment list" where
  "glyph_H = literals
    [((0, 4), (3, 4)),
     ((3, 4), (0, 5)),
     ((2.25, 4), (0, 6)),
     ((1.5, 4), (0, 7)),
     ((0.75, 4), (0, 8)),
     ((0, 8), (0, 0)),
     ((0, 0), (0.75, 4)),
     ((0, 1), (1.5, 4)),
     ((0, 2), (2.25, 4)),
     ((0, 3), (3, 4)),
     ((3, 4), (6, 5)),
     ((3.75, 4), (6, 6)),
     ((4.5, 4), (6, 7)),
     ((5.25, 4), (6, 8)),
     ((6, 8), (6, 0)),
     ((6, 0), (5.25, 4)),
     ((6, 1), (4.5, 4)),
     ((6, 2), (3.75, 4)),
     ((6, 3), (3, 4)),
     ((3, 4), (6, 4))]"

definition glyph_I :: "segment list" where
  "glyph_I = literals
    [((3, 0), (3, 4)),
     ((3, 4), (2.25, 0)),
     ((3, 3), (1.5, 0)),
     ((3, 2), (0.75, 0)),
     ((3, 1), (0, 0)),
     ((0, 0), (6, 0)),
     ((6, 0), (3, 1)),
     ((5.25, 0), (3, 2)),
     ((4.5, 0), (3, 3)),
     ((3.75, 0), (3, 4)),
     ((3, 4), (3, 8)),
     ((3, 8), (0, 8)),
     ((0, 8), (3, 7)),
     ((0.75, 8), (3, 6)),
     ((1.5, 8), (3, 5)),
     ((2.25, 8), (3, 4)),
     ((3, 4), (3.75, 8)),
     ((3, 5), (4.5, 8)),
     ((3, 6), (5.25, 8)),
     ((3, 7), (6, 8)),
     ((6, 8), (3, 8))]"

definition glyph_J :: "segment list" where
  "glyph_J = literals
    [((0, 0), (6, 0)),
     ((6, 0), (6, 8)),
     ((6, 8), (5.25, 0)),
     ((6, 7), (4.5, 0)),
     ((6, 6), (3.75, 0)),
     ((6, 5), (3, 0)),
     ((6, 4), (2.25, 0)),
     ((6, 3), (1.5, 0)),
     ((6, 2), (0.75, 0)),
     ((6, 1), (0, 0))]"

definition glyph_K :: "segment list" where
  "glyph_K = literals
    [((0, 4), (6, 0)),
     ((6, 0), (0, 3.2)),
     ((4.8, 0.8), (0, 2.4)),
     ((3.6, 1.6), (0, 1.6)),
     ((2.4, 2.4), (0, 0.8)),
     ((1.2, 3.2), (0, 0)),
     ((0, 0), (0, 8)),
     ((0, 8), (1.2, 4.8)),
     ((0, 7.2), (2.4, 5.6)),
     ((0, 6.4), (3.6, 6.4)),
     ((0, 5.6), (4.8, 7.2)),
     ((0, 4.8), (6, 8)),
     ((6, 8), (0, 4))]"

definition glyph_L :: "segment list" where
  "glyph_L = literals
    [((0, 8), (0, 0)),
     ((0, 0), (6, 0)),
     ((6, 0), (0, 1)),
     ((5.25, 0), (0, 2)),
     ((4.5, 0), (0, 3)),
     ((3.75, 0), (0, 4)),
     ((3, 0), (0, 5)),
     ((2.25, 0), (0, 6)),
     ((1.5, 0), (0, 7)),
     ((0.75, 0), (0, 8))]"

definition glyph_M :: "segment list" where
  "glyph_M = literals
    [((3, 4), (0, 8)),
     ((0, 8), (0, 0)),
     ((0, 0), (0.375, 7.5)),
     ((0, 1), (0.75, 7)),
     ((0, 2), (1.125, 6.5)),
     ((0, 3), (1.5, 6)),
     ((0, 4), (1.875, 5.5)),
     ((0, 5), (2.25, 5)),
     ((0, 6), (2.625, 4.5)),
     ((0, 7), (3, 4)),
     ((3, 4), (6, 8)),
     ((6, 8), (6, 0)),
     ((6, 0), (5.625, 7.5)),
     ((6, 1), (5.25, 7)),
     ((6, 2), (4.875, 6.5)),
     ((6, 3), (4.5, 6)),
     ((6, 4), (4.125, 5.5)),
     ((6, 5), (3.75, 5)),
     ((6, 6), (3.375, 4.5)),
     ((6, 7), (3, 4))]"

definition glyph_N :: "segment list" where
  "glyph_N = literals
    [((3, 4), (0, 8)),
     ((0, 8), (0, 0)),
     ((0, 0), (0.375, 7.5)),
     ((0, 1), (0.75, 7)),
     ((0, 2), (1.125, 6.5)),
     ((0, 3), (1.5, 6)),
     ((0, 4), (1.875, 5.5)),
     ((0, 5), (2.25, 5)),
     ((0, 6), (2.625, 4.5)),
     ((0, 7), (3, 4)),
     ((3, 4), (6, 0)),
     ((6, 0), (6, 8)),
     ((6, 8), (5.625, 0.5)),
     ((6, 7), (5.25, 1)),
     ((6, 6), (4.875, 1.5)),
     ((6, 5), (4.5, 2)),
     ((6, 4), (4.125, 2.5)),
     ((6, 3), (3.75, 3)),
     ((6, 2), (3.725, 3.5)),
     ((6, 1), (3, 4))]"

definition CHARACTER_DRAWING_DATA :: "char \<Rightarrow> segment list option" where
  "CHARACTER_DRAWING_DATA =
     map_of
       [(CHR ''A'', glyph_A), (CHR ''B'', glyph_B), (CHR ''C'', glyph_C),
        (CHR ''D'', glyph_D), (CHR ''E'', glyph_E), (CHR ''F'', glyph_F),
        (CHR ''G'', glyph_G), (CHR ''H'', glyph_H), (CHR ''I'', glyph_I),
        (CHR ''J'', glyph_J), (CHR ''K'', glyph_K), (CHR ''L'', glyph_L),
        (CHR ''M'', glyph_M), (CHR ''N'', glyph_N)]"

text \<open>The table of the earlier version stops at F; its six entries are the same.\<close>

definition script_CHARACTER_DRAWING_DATA :: "char \<Rightarrow> segment list option" where
  "script_CHARACTER_DRAWING_DATA =
     map_of
       [(CHR ''A'', glyph_A), (CHR ''B'', glyph_B), (CHR ''C'', glyph_C),
        (CHR ''D'', glyph_D), (CHR ''E'', glyph_E), (CHR ''F'', glyph_F)]"

subsection \<open>The state of the script and of its host\<close>

text \<open>A finished character: \<open>{ char, processedPoints, xOffset }\<close>.\<close>

record completedCharacter =
  charOf :: char
  processedPoints :: "point list"
  xOffset :: real

text \<open>
  The two functions the script hands to \<open>requestAnimationFrame\<close>.
\<close>

datatype callback = CbAnimate | CbRedraw

text \<open>
  The global variables of the script come first, under their own names. The
  remaining fields are what the script reads from and writes to its host: the size
  of the canvas element, the paths stroked on the canvas since it was last
  cleared (each one the list of its pixel positions), the animation-frame
  callbacks that are requested and not yet run or cancelled, and the next handle
  \<open>requestAnimationFrame\<close> gives out. The status line of the page is written
  and never read; it is left out.
\<close>

record world =
  currentCanvasWidth :: real
  currentCanvasHeight :: real
  baseScale :: real
  wordScaleFactor :: real
  centerXOffsetPixels :: real
  centerYOffsetPixels :: real
  wordToAnimate :: string
  currentWordCharIndex :: nat
  processedPointsForCurrentChar :: "point list"
  totalFramesForCurrentChar :: nat
  currentFrame :: nat
  animationActive :: bool
  animationFrameId :: "nat option"
  completedCharacters :: "completedCharacter list"
  lastTimestamp :: real
  clientWidth :: nat
  clientHeight :: nat
  canvas :: "point list list"
  pending :: "(nat \<times> callback) list"
  nextHandle :: nat

definition requestAnimationFrame :: "callback \<Rightarrow> world \<Rightarrow> nat \<times> world" where
  "requestAnimationFrame cb st =
     (nextHandle st,
      st\<lparr>pending := pending st @ [(nextHandle st, cb)], nextHandle := Suc (nextHandle st)\<rparr>)"

definition cancelAnimationFrame :: "nat \<Rightarrow> world \<Rightarrow> world" where
  "cancelAnimationFrame h st = st\<lparr>pending := filter (\<lambda>p. fst p \<noteq> h) (pending st)\<rparr>"

subsection \<open>Compiling a glyph into its point sequence\<close>

text \<open>
  The loop over the segments in \<open>prepareAnimationForCharacter\<close>: the second
  argument, \<open>emitted\<close>, is \<open>processedPointsForCurrentChar\<close> as built so far.
\<close>

fun flattenSegments :: "segment list \<Rightarrow> point list \<Rightarrow> point list" where
  "flattenSegments [] emitted = emitted"
| "flattenSegments (segment # rest) emitted =
     (let interpolated = interpolateSegment segment None
      in if length emitted > 0 \<and> length interpolated > 0 \<and>
            fst (last emitted) = fst (hd interpolated) \<and>
            snd (last emitted) = snd (hd interpolated)
         then flattenSegments rest (emitted @ drop 1 interpolated)
         else flattenSegments rest (emitted @ interpolated))"

text \<open>
  The table is a parameter, since the two versions differ in it only. The result
  is the new state and the boolean the script returns.
\<close>

definition prepareAnimationForCharacter ::
    "(char \<Rightarrow> segment list option) \<Rightarrow> char \<Rightarrow> world \<Rightarrow> world \<times> bool" where
  "prepareAnimationForCharacter table c st =
     (case table c of
        None \<Rightarrow>
          (st\<lparr>processedPointsForCurrentChar := [], totalFramesForCurrentChar := 0\<rparr>, False)
      | Some charDrawingSegments \<Rightarrow>
          (let points = flattenSegments charDrawingSegments []
           in (st\<lparr>processedPointsForCurrentChar := points,
                   totalFramesForCurrentChar := length points,
                   currentFrame := 0\<rparr>, True)))"

subsection \<open>Fitting the word into the viewport\<close>

definition calculateWordScalingAndOffset :: "string \<Rightarrow> world \<Rightarrow> world" where
  "calculateWordScalingAndOffset word st =
     (let unscaledRequiredDataWidth = real (length word) * CHAR_WIDTH_DATA_UNITS;
          unscaledRequiredDataHeight = DATA_RANGE_Y;
          baseScaledPixelWidth = unscaledRequiredDataWidth * baseScale st;
          baseScaledPixelHeight = unscaledRequiredDataHeight * baseScale st;
          widthFitFactor =
            (if baseScaledPixelWidth > currentCanvasWidth st
             then (currentCanvasWidth st / baseScaledPixelWidth) * 0.95 else 1);
          heightFitFactor =
            (if baseScaledPixelHeight > currentCanvasHeight st
             then (currentCanvasHeight st / baseScaledPixelHeight) * 0.95 else 1);
          factor = min widthFitFactor heightFitFactor;
          finalScaledPixelWidth = baseScaledPixelWidth * factor;
          finalScaledPixelHeight = baseScaledPixelHeight * factor
      in st\<lparr>wordScaleFactor := factor,
             centerXOffsetPixels := (currentCanvasWidth st - finalScaledPixelWidth) / 2,
             centerYOffsetPixels := (currentCanvasHeight st - finalScaledPixelHeight) / 2\<rparr>)"

text \<open>
  \<open>updateCanvasDimensions\<close> reads the size of the canvas element, resizes the
  drawing buffer (which empties it), recomputes the scales and asks for a redraw.
\<close>

definition updateCanvasDimensions :: "world \<Rightarrow> world" where
  "updateCanvasDimensions st =
     (let st1 = st\<lparr>currentCanvasWidth := real (clientWidth st),
                    currentCanvasHeight := real (clientHeight st),
                    canvas := []\<rparr>;
          availableCanvasMinDimension = min (currentCanvasWidth st1) (currentCanvasHeight st1);
          dataMaxDimension = max DATA_RANGE_X DATA_RANGE_Y;
          st2 = (if availableCanvasMinDimension = 0 \<or> dataMaxDimension = 0
                 then st1\<lparr>baseScale := 0\<rparr>
                 else st1\<lparr>baseScale :=
                        (availableCanvasMinDimension / dataMaxDimension) * SIZE_MULTIPLIER\<rparr>);
          st3 = (if wordToAnimate st2 \<noteq> []
                 then calculateWordScalingAndOffset (wordToAnimate st2) st2
                 else st2\<lparr>wordScaleFactor := 1,
                          centerXOffsetPixels := 0,
                          centerYOffsetPixels := 0\<rparr>)
      in snd (requestAnimationFrame CbRedraw st3))"

subsection \<open>From data coordinates to pixels, and drawing\<close>

definition transformPoint :: "world \<Rightarrow> real \<Rightarrow> real \<Rightarrow> real \<Rightarrow> point" where
  "transformPoint st dataX dataY charXOffsetDataUnits =
     (let transformedDataX = dataX + charXOffsetDataUnits;
          transformedDataY = dataY;
          scaledX = (transformedDataX - X_MIN) * baseScale st * wordScaleFactor st;
          scaledY = (transformedDataY - Y_MIN) * baseScale st * wordScaleFactor st;
          canvasX = scaledX + centerXOffsetPixels st;
          canvasY = currentCanvasHeight st - (scaledY + centerYOffsetPixels st)
      in (canvasX, canvasY))"

text \<open>
  \<open>drawPath\<close> strokes one path through the transformed points, and nothing when
  there are fewer than two of them.
\<close>

definition drawPath :: "point list \<Rightarrow> real \<Rightarrow> world \<Rightarrow> world" where
  "drawPath points offset st =
     (if length points < 2 then st
      else st\<lparr>canvas := canvas st @
                  [map (\<lambda>p. transformPoint st (fst p) (snd p) offset) points]\<rparr>)"

text \<open>
  The loop that draws every finished character again, at its own offset.
\<close>

definition drawCompletedCharacters :: "world \<Rightarrow> world" where
  "drawCompletedCharacters st =
     fold (\<lambda>completedCharData. drawPath (processedPoints completedCharData)
                                        (xOffset completedCharData))
          (completedCharacters st) st"

definition redrawCanvasContent :: "world \<Rightarrow> world" where
  "redrawCanvasContent st =
     (let st1 = st\<lparr>canvas := []\<rparr>;
          st2 = drawCompletedCharacters st1
      in if animationActive st2 \<and> currentWordCharIndex st2 < length (wordToAnimate st2)
         then
           (let currentChar = wordToAnimate st2 ! currentWordCharIndex st2;
                currentXOffsetDataUnits = real (currentWordCharIndex st2) * CHAR_WIDTH_DATA_UNITS;
                st3 = (if length (processedPointsForCurrentChar st2) = 0
                       then fst (prepareAnimationForCharacter CHARACTER_DRAWING_DATA currentChar st2)
                       else st2);
                pointsToDrawForCurrentChar =
                  take (currentFrame st3 + 1) (processedPointsForCurrentChar st3)
            in drawPath pointsToDrawForCurrentChar currentXOffsetDataUnits st3)
         else st2)"

subsection \<open>The animation loop\<close>

text \<open>
  The remainder operator on numbers: the quotient is truncated towards zero.
\<close>

definition js_rem :: "real \<Rightarrow> real \<Rightarrow> real" where
  "js_rem a b = a - b * of_int (if a / b < 0 then \<lceil>a / b\<rceil> else \<lfloor>a / b\<rfloor>)"

text \<open>
  The block of \<open>animate\<close> that advances the frame or moves to the next
  character. The comparison is on integers, since \<open>totalFramesForCurrentChar - 1\<close>
  is \<open>-1\<close> for an empty point sequence.
\<close>

definition advanceFrame :: "world \<Rightarrow> world" where
  "advanceFrame st =
     (if currentWordCharIndex st < length (wordToAnimate st) then
        (if int (currentFrame st) \<ge> int (totalFramesForCurrentChar st) - 1 then
           (let st1 = st\<lparr>completedCharacters := completedCharacters st @
                         [\<lparr>charOf = wordToAnimate st ! currentWordCharIndex st,
                           processedPoints = processedPointsForCurrentChar st,
                           xOffset = real (currentWordCharIndex st) * CHAR_WIDTH_DATA_UNITS\<rparr>]\<rparr>;
                st2 = st1\<lparr>currentWordCharIndex := currentWordCharIndex st1 + 1,
                          currentFrame := 0,
                          processedPointsForCurrentChar := []\<rparr>
            in if currentWordCharIndex st2 < length (wordToAnimate st2)
               then fst (prepareAnimationForCharacter CHARACTER_DRAWING_DATA
                           (wordToAnimate st2 ! currentWordCharIndex st2) st2)
               else st2\<lparr>animationActive := False\<rparr>)
         else st\<lparr>currentFrame := currentFrame st + 1\<rparr>)
      else st\<lparr>animationActive := False\<rparr>)"

definition animate :: "real \<Rightarrow> world \<Rightarrow> world" where
  "animate timestamp st =
     (if \<not> animationActive st then st\<lparr>animationFrameId := None\<rparr>
      else
        (let deltaTime = timestamp - lastTimestamp st;
             st1 = (if deltaTime \<ge> ANIMATION_INTERVAL_MS
                    then advanceFrame (redrawCanvasContent
                           (st\<lparr>lastTimestamp :=
                                  timestamp - js_rem deltaTime ANIMATION_INTERVAL_MS\<rparr>))
                    else st)
         in if animationActive st1
            then (let (h, st2) = requestAnimationFrame CbAnimate st1
                  in st2\<lparr>animationFrameId := Some h\<rparr>)
            else st1))"

subsection \<open>Submitting a word\<close>

text \<open>
  The text of the input field is a string of ASCII characters. \<open>trim\<close> removes
  white space at both ends, \<open>toUpperCase\<close> maps the letters a to z.
\<close>

definition isWhiteSpace :: "char \<Rightarrow> bool" where
  "isWhiteSpace c = ((of_char c :: nat) \<in> {9, 10, 11, 12, 13, 32})"

definition trim :: "string \<Rightarrow> string" where
  "trim s = rev (dropWhile isWhiteSpace (rev (dropWhile isWhiteSpace s)))"

definition toUpperCase :: "string \<Rightarrow> string" where
  "toUpperCase s =
     map (\<lambda>c. let n = (of_char c :: nat)
               in if 97 \<le> n \<and> n \<le> 122 then char_of (n - 32) else c) s"

text \<open>
  The click handler of the button, in three parts: it stores the filtered word,
  stops any ongoing animation (the handle is tested for truth, so a handle 0
  would not be cancelled), and, unless the word is empty, starts the animation
  of the new word. Its arguments are the text of the input field and the value
  of \<open>performance.now()\<close>.
\<close>

definition stopOngoingAnimation :: "world \<Rightarrow> world" where
  "stopOngoingAnimation st =
     (let st1 = (case animationFrameId st of
                   None \<Rightarrow> st
                 | Some h \<Rightarrow> if h \<noteq> 0 then cancelAnimationFrame h st else st)
      in st1\<lparr>animationActive := False\<rparr>)"

definition startWordAnimation :: "real \<Rightarrow> world \<Rightarrow> world" where
  "startWordAnimation now st =
     (let st1 = updateCanvasDimensions st;
          st2 = calculateWordScalingAndOffset (wordToAnimate st1) st1;
          st3 = st2\<lparr>currentWordCharIndex := 0, currentFrame := 0,
                    processedPointsForCurrentChar := []\<rparr>;
          firstChar = wordToAnimate st3 ! 0;
          (st4, prepared) = prepareAnimationForCharacter CHARACTER_DRAWING_DATA firstChar st3
      in if \<not> prepared
         then st4\<lparr>canvas := [], completedCharacters := [], wordToAnimate := [],
                  wordScaleFactor := 1, centerXOffsetPixels := 0,
                  centerYOffsetPixels := 0\<rparr>
         else
           (let st5 = st4\<lparr>completedCharacters := [], canvas := [],
                         animationActive := True, lastTimestamp := now\<rparr>;
                (h, st6) = requestAnimationFrame CbAnimate st5
            in st6\<lparr>animationFrameId := Some h\<rparr>))"

definition animateButtonClick :: "string \<Rightarrow> real \<Rightarrow> world \<Rightarrow> world" where
  "animateButtonClick textInputValue now st =
     (let inputValue = toUpperCase (trim textInputValue);
          supportedCharsInInput = filter (\<lambda>c. CHARACTER_DRAWING_DATA c \<noteq> None) inputValue;
          st1 = st\<lparr>wordToAnimate := supportedCharsInInput\<rparr>;
          st2 = stopOngoingAnimation st1
      in if length (wordToAnimate st2) = 0
         then st2\<lparr>canvas := [], completedCharacters := [], wordScaleFactor := 1,
                  centerXOffsetPixels := 0, centerYOffsetPixels := 0\<rparr>
         else startWordAnimation now st2)"

subsection \<open>The events of the page\<close>

text \<open>
  The script starts with its variables at their declared values, on a canvas
  element of some size, and runs \<open>updateCanvasDimensions\<close> when the page has
  loaded.
\<close>

definition initialWorld :: "nat \<Rightarrow> nat \<Rightarrow> world" where
  "initialWorld w h =
     \<lparr>currentCanvasWidth = 0, currentCanvasHeight = 0, baseScale = 0,
      wordScaleFactor = 1, centerXOffsetPixels = 0, centerYOffsetPixels = 0,
      wordToAnimate = [], currentWordCharIndex = 0,
      processedPointsForCurrentChar = [], totalFramesForCurrentChar = 0,
      currentFrame = 0, animationActive = False, animationFrameId = None,
      completedCharacters = [], lastTimestamp = 0,
      clientWidth = w, clientHeight = h, canvas = [], pending = [], nextHandle = 1\<rparr>"

definition windowOnload :: "world \<Rightarrow> world" where
  "windowOnload st = updateCanvasDimensions st"

definition windowResize :: "nat \<Rightarrow> nat \<Rightarrow> world \<Rightarrow> world" where
  "windowResize w h st = updateCanvasDimensions (st\<lparr>clientWidth := w, clientHeight := h\<rparr>)"

text \<open>
  An animation frame runs the callbacks that were pending when it began, in the
  order of their requests, all with the same timestamp; what they request is
  pending for the next frame.
\<close>

fun runCallback :: "real \<Rightarrow> nat \<times> callback \<Rightarrow> world \<Rightarrow> world" where
  "runCallback timestamp (h, CbAnimate) st = animate timestamp st"
| "runCallback timestamp (h, CbRedraw) st = redrawCanvasContent st"

definition animationFrame :: "real \<Rightarrow> world \<Rightarrow> world" where
  "animationFrame timestamp st = fold (runCallback timestamp) (pending st) (st\<lparr>pending := []\<rparr>)"

datatype event = Load | Click string real | Frame real | Resize nat nat

fun step :: "event \<Rightarrow> world \<Rightarrow> world" where
  "step Load st = windowOnload st"
| "step (Click textInputValue now) st = animateButtonClick textInputValue now st"
| "step (Frame timestamp) st = animationFrame timestamp st"
| "step (Resize w h) st = windowResize w h st"

definition run :: "event list \<Rightarrow> world \<Rightarrow> world" where
  "run events st = fold step events st"

text \<open>
  The states of the page: the button can be clicked before the page has loaded.
\<close>

inductive reachable :: "world \<Rightarrow> bool" where
  started: "reachable (initialWorld w h)"
| event: "reachable st \<Longrightarrow> reachable (step e st)"

subsection \<open>The earlier version: fixed canvas, no cancellation\<close>

definition script_transformPoint :: "world \<Rightarrow> real \<Rightarrow> real \<Rightarrow> real \<Rightarrow> point" where
  "script_transformPoint st dataX dataY charXOffsetDataUnits =
     (let transformedDataX = dataX + charXOffsetDataUnits;
          canvasX = (transformedDataX - X_MIN) * SCALE_X * wordScaleFactor st;
          canvasY = CANVAS_SIZE - ((dataY - Y_MIN) * SCALE_Y * wordScaleFactor st)
      in (canvasX, canvasY))"

definition script_drawPath :: "point list \<Rightarrow> real \<Rightarrow> world \<Rightarrow> world" where
  "script_drawPath points offset st =
     (if length points < 2 then st
      else st\<lparr>canvas := canvas st @
                  [map (\<lambda>p. script_transformPoint st (fst p) (snd p) offset) points]\<rparr>)"

text \<open>
  In this version \<open>animate\<close> draws by itself, prepares a character when the
  point sequence is empty, and skips a character the table does not have. It
  requests the next frame on every path but the first, and keeps no handle.
\<close>

definition script_drawCompletedCharacters :: "world \<Rightarrow> world" where
  "script_drawCompletedCharacters st =
     fold (\<lambda>completedCharData. script_drawPath (processedPoints completedCharData)
                                               (xOffset completedCharData))
          (completedCharacters st) st"

definition script_animate :: "real \<Rightarrow> world \<Rightarrow> world" where
  "script_animate timestamp st =
     (if \<not> animationActive st then st
      else
        (let deltaTime = timestamp - lastTimestamp st
         in if deltaTime \<ge> script_ANIMATION_INTERVAL_MS then
              (let st1 = st\<lparr>lastTimestamp :=
                              timestamp - js_rem deltaTime script_ANIMATION_INTERVAL_MS,
                            canvas := []\<rparr>;
                   st2 = script_drawCompletedCharacters st1
               in if currentWordCharIndex st2 < length (wordToAnimate st2) then
                    (let currentChar = wordToAnimate st2 ! currentWordCharIndex st2;
                         currentXOffsetDataUnits =
                           real (currentWordCharIndex st2) * CHAR_WIDTH_DATA_UNITS;
                         (st3, prepared) =
                           (if length (processedPointsForCurrentChar st2) = 0
                            then prepareAnimationForCharacter script_CHARACTER_DRAWING_DATA
                                   currentChar st2
                            else (st2, True))
                     in if \<not> prepared then
                          snd (requestAnimationFrame CbAnimate
                                 (st3\<lparr>currentWordCharIndex := currentWordCharIndex st3 + 1,
                                       currentFrame := 0\<rparr>))
                        else
                          (let pointsToDrawForCurrentChar =
                                 take (currentFrame st3 + 1) (processedPointsForCurrentChar st3);
                               st4 = script_drawPath pointsToDrawForCurrentChar
                                       currentXOffsetDataUnits st3;
                               st5 =
                                 (if int (currentFrame st4) \<ge> int (totalFramesForCurrentChar st4) - 1
                                  then st4\<lparr>completedCharacters := completedCharacters st4 @
                                             [\<lparr>charOf = currentChar,
                                               processedPoints = processedPointsForCurrentChar st4,
                                               xOffset = currentXOffsetDataUnits\<rparr>],
                                           currentWordCharIndex := currentWordCharIndex st4 + 1,
                                           currentFrame := 0,
                                           processedPointsForCurrentChar := []\<rparr>
                                  else st4\<lparr>currentFrame := currentFrame st4 + 1\<rparr>)
                           in snd (requestAnimationFrame CbAnimate st5)))
                  else snd (requestAnimationFrame CbAnimate st2))
            else snd (requestAnimationFrame CbAnimate st)))"

text \<open>
  The click handler of the earlier version. It stores the filtered word; for an
  empty word it deactivates the animation and clears the canvas and the
  completed set; otherwise it sets the scale factor of the word from its width,
  resets the variables of the animation, activates it and requests
  \<open>animate\<close>. It keeps no handle of the request, cancels nothing, and leaves
  \<open>lastTimestamp\<close> as it is.
\<close>

definition script_animateButtonClick :: "string \<Rightarrow> world \<Rightarrow> world" where
  "script_animateButtonClick textInputValue st =
     (let inputValue = toUpperCase (trim textInputValue);
          supportedCharsInInput =
            filter (\<lambda>c. script_CHARACTER_DRAWING_DATA c \<noteq> None) inputValue;
          st1 = st\<lparr>wordToAnimate := supportedCharsInInput\<rparr>
      in if length (wordToAnimate st1) = 0
         then st1\<lparr>animationActive := False, canvas := [], completedCharacters := []\<rparr>
         else
           (let requiredDataWidth = real (length (wordToAnimate st1)) * CHAR_WIDTH_DATA_UNITS;
                canvasAvailableDataWidth = X_MAX - X_MIN;
                st2 = st1\<lparr>wordScaleFactor :=
                            (if requiredDataWidth > canvasAvailableDataWidth
                             then canvasAvailableDataWidth / requiredDataWidth * 0.95
                             else 1)\<rparr>;
                st3 = st2\<lparr>currentWordCharIndex := 0, currentFrame := 0,
                          processedPointsForCurrentChar := [], completedCharacters := [],
                          canvas := []\<rparr>;
                st4 = st3\<lparr>animationActive := True\<rparr>
            in snd (requestAnimationFrame CbAnimate st4)))"

text \<open>
  An animation frame of the earlier version, whose only callback is
  \<open>animate\<close>.
\<close>

fun script_runCallback :: "real \<Rightarrow> nat \<times> callback \<Rightarrow> world \<Rightarrow> world" where
  "script_runCallback timestamp (h, CbAnimate) st = script_animate timestamp st"
| "script_runCallback timestamp (h, CbRedraw) st = st"

definition script_animationFrame :: "real \<Rightarrow> world \<Rightarrow> world" where
  "script_animationFrame timestamp st =
     fold (script_runCallback timestamp) (pending st) (st\<lparr>pending := []\<rparr>)"
subsection \<open>Notions of the specification\<close>

text \<open>
  The specification speaks of the linear interpolation of a segment at a
  parameter \<open>t\<close>. The script evaluates \<open>start + t * (end - start)\<close> in double
  precision, on each coordinate; \<open>lerpDouble\<close> is that evaluation, with its
  three roundings.
\<close>

definition lerpDouble :: "segment \<Rightarrow> real \<Rightarrow> point" where
  "lerpDouble segment t =
     (fl (fst (fst segment) + fl (t * fl (fst (snd segment) - fst (fst segment)))),
      fl (snd (fst segment) + fl (t * fl (snd (snd segment) - snd (fst segment)))))"



text \<open>
  The specification also speaks of the consecutive segments of a glyph whose
  join point coincides: the end of the one is the start of the next.
\<close>

definition coincidingJoins :: "segment list \<Rightarrow> nat" where
  "coincidingJoins segs =
     length (filter (\<lambda>k. snd (segs ! k) = fst (segs ! Suc k)) [0..<length segs - 1])"

text \<open>
  The script compares the start of a segment with the last point that the
  interpolation of the segment before it has computed, \<open>endsAt\<close>, which is
  the interpolation at \<open>t = 1\<close>. \<open>joinsBy ends\<close> counts the joins where the
  point \<open>ends\<close> of a segment is the start of the next one. \<open>exactJoins\<close> holds
  of a glyph when the start of each segment is a pair of doubles, the computed
  end of a segment is the start of the next one exactly when its end in the table
  is, and the computed end of the last segment is its end in the table.
\<close>

definition endsAt :: "segment \<Rightarrow> point" where
  "endsAt segment = lerpDouble segment 1"

definition joinsBy :: "(segment \<Rightarrow> point) \<Rightarrow> segment list \<Rightarrow> nat" where
  "joinsBy ends segs =
     length (filter (\<lambda>k. ends (segs ! k) = fst (segs ! Suc k)) [0..<length segs - 1])"

definition startsDouble :: "segment list \<Rightarrow> bool" where
  "startsDouble segs =
     list_all (\<lambda>segment. fl (fst (fst segment)) = fst (fst segment)
                       \<and> fl (snd (fst segment)) = snd (fst segment)) segs"

definition exactJoins :: "segment list \<Rightarrow> bool" where
  "exactJoins segs =
     (startsDouble segs
      \<and> list_all (\<lambda>(segment, following).
            (endsAt segment = fst following) = (snd segment = fst following))
          (zip segs (tl segs))
      \<and> endsAt (last segs) = snd (last segs))"

text \<open>
  The two fit factors that \<open>calculateWordScalingAndOffset\<close> computes before
  it takes their minimum.
\<close>

definition widthFit :: "world \<Rightarrow> string \<Rightarrow> real" where
  "widthFit st word =
     (if real (length word) * CHAR_WIDTH_DATA_UNITS * baseScale st > currentCanvasWidth st
      then currentCanvasWidth st / (real (length word) * CHAR_WIDTH_DATA_UNITS * baseScale st) * 0.95
      else 1)"

definition heightFit :: "world \<Rightarrow> real" where
  "heightFit st =
     (if DATA_RANGE_Y * baseScale st > currentCanvasHeight st
      then currentCanvasHeight st / (DATA_RANGE_Y * baseScale st) * 0.95
      else 1)"

text \<open>
  The point sequence of a character of the table, and the record of the finished
  character at position \<open>k\<close> of a word: its character, its whole point
  sequence and its slot offset. The completed set of a word whose first \<open>n\<close>
  characters are finished holds these records in the order of the word.
\<close>

definition compiled :: "char \<Rightarrow> point list" where
  "compiled c =
     (case CHARACTER_DRAWING_DATA c of None \<Rightarrow> [] | Some segs \<Rightarrow> flattenSegments segs [])"

definition completedAt :: "string \<Rightarrow> nat \<Rightarrow> completedCharacter" where
  "completedAt word k =
     \<lparr>charOf = word ! k, processedPoints = compiled (word ! k),
      xOffset = real k * CHAR_WIDTH_DATA_UNITS\<rparr>"

definition completedUpTo :: "string \<Rightarrow> nat \<Rightarrow> completedCharacter list" where
  "completedUpTo word n = map (completedAt word) [0..<n]"

text \<open>The word that a submitted text leaves after trimming, upper-casing and filtering.\<close>

definition supportedWord :: "string \<Rightarrow> string" where
  "supportedWord textInputValue =
     filter (\<lambda>c. CHARACTER_DRAWING_DATA c \<noteq> None) (toUpperCase (trim textInputValue))"

text \<open>
  The number of ticks a word takes, and the frames of a browser that delivers one
  every \<open>ANIMATION_INTERVAL_MS\<close> after the time \<open>t0\<close>.
\<close>

definition totalFrames :: "string \<Rightarrow> nat" where
  "totalFrames word = sum_list (map (\<lambda>c. length (compiled c)) word)"

fun nominalFrames :: "real \<Rightarrow> nat \<Rightarrow> event list" where
  "nominalFrames t0 0 = []"
| "nominalFrames t0 (Suc n) =
     Frame (t0 + ANIMATION_INTERVAL_MS) # nominalFrames (t0 + ANIMATION_INTERVAL_MS) n"

text \<open>The ticks that an active animation still needs to finish its word.\<close>

definition remainingFrames :: "world \<Rightarrow> nat" where
  "remainingFrames st =
     (if animationActive st
      then length (processedPointsForCurrentChar st) - currentFrame st
           + totalFrames (drop (Suc (currentWordCharIndex st)) (wordToAnimate st))
      else 0)"

fun isClick :: "event \<Rightarrow> bool" where
  "isClick Load = False"
| "isClick (Click textInputValue now) = True"
| "isClick (Frame timestamp) = False"
| "isClick (Resize w h) = False"

text \<open>
  What holds of the animation variables between two events: the word has table
  characters only; while the animation is active the current character is in the
  word, its point sequence is the compiled one and the frame is an index into it;
  the completed set is that of the characters before the current one; an
  inactive animation of a word has finished it.
\<close>

definition animationInv :: "world \<Rightarrow> bool" where
  "animationInv st =
     ((\<forall>c \<in> set (wordToAnimate st). CHARACTER_DRAWING_DATA c \<noteq> None)
      \<and> (animationActive st \<longrightarrow>
            currentWordCharIndex st < length (wordToAnimate st)
            \<and> processedPointsForCurrentChar st =
                compiled (wordToAnimate st ! currentWordCharIndex st)
            \<and> totalFramesForCurrentChar st = length (processedPointsForCurrentChar st)
            \<and> currentFrame st < length (processedPointsForCurrentChar st))
      \<and> (wordToAnimate st = [] \<longrightarrow> completedCharacters st = [] \<and> \<not> animationActive st)
      \<and> (wordToAnimate st \<noteq> [] \<longrightarrow>
            currentWordCharIndex st \<le> length (wordToAnimate st)
            \<and> completedCharacters st = completedUpTo (wordToAnimate st) (currentWordCharIndex st)
            \<and> (\<not> animationActive st \<longrightarrow>
                  currentWordCharIndex st = length (wordToAnimate st))))"

text \<open>
  What holds of the requested callbacks: handles are positive, distinct and below
  the next one, and a pending \<open>animate\<close> is the one whose handle the script
  keeps in \<open>animationFrameId\<close>. The first argument lists callbacks of a frame
  that is under way and have not run yet.
\<close>

definition pendingInv :: "(nat \<times> callback) list \<Rightarrow> world \<Rightarrow> bool" where
  "pendingInv rest st =
     (0 < nextHandle st
      \<and> (\<forall>p \<in> set (rest @ pending st). 0 < fst p \<and> fst p < nextHandle st)
      \<and> distinct (map fst (rest @ pending st))
      \<and> (\<forall>h. (h, CbAnimate) \<in> set (rest @ pending st) \<longrightarrow> animationFrameId st = Some h))"

text \<open>The branch of \<open>animate\<close> that is taken when the interval has elapsed.\<close>

definition ticked :: "real \<Rightarrow> world \<Rightarrow> world" where
  "ticked timestamp st =
     advanceFrame (redrawCanvasContent
       (st\<lparr>lastTimestamp :=
             timestamp - js_rem (timestamp - lastTimestamp st) ANIMATION_INTERVAL_MS\<rparr>))"

section \<open>Properties\<close>

subsection \<open>Rounding\<close>

lemma fl_zero [simp]: "fl 0 = 0"
  by (simp add: fl_def)

lemma fl_one [simp]: "fl 1 = 1"
  by code_simp

text \<open>
  The doubles that the interpolation of the segments of the table computes at
  \<open>t = 1\<close>: the roundings of the literals, of the differences of the
  coordinates of end and start, and of the sums of a start and a difference.
\<close>

lemma fl_table_1:
  "fl (- (3 / 8)) = - (3 / 8)"
  "fl (3 / 8) = 3 / 8"
  "fl (- (900719925474099 / 2251799813685248)) = - (900719925474099 / 2251799813685248)"
  "fl (2 / 5) = 3602879701896397 / 9007199254740992"
  "fl (- (3602879701896397 / 9007199254740992)) = - (3602879701896397 / 9007199254740992)"
  "fl (3602879701896397 / 9007199254740992) = 3602879701896397 / 9007199254740992"
  "fl (- (225179981368525 / 562949953421312)) = - (225179981368525 / 562949953421312)"
  "fl (1 / 2) = 1 / 2"
  "fl (- (3 / 4)) = - (3 / 4)"
  "fl (3 / 4) = 3 / 4"
  "fl (- (900719925474099 / 1125899906842624)) = - (900719925474099 / 1125899906842624)"
  "fl (4 / 5) = 3602879701896397 / 4503599627370496"
  "fl (- (3602879701896397 / 4503599627370496)) = - (3602879701896397 / 4503599627370496)"
  by code_simp+

lemma fl_table_2:
  "fl (3602879701896397 / 4503599627370496) = 3602879701896397 / 4503599627370496"
  "fl (- 1) = - 1"
  "fl (- (9 / 8)) = - (9 / 8)"
  "fl (9 / 8) = 9 / 8"
  "fl (- (5404319552844595 / 4503599627370496)) = - (5404319552844595 / 4503599627370496)"
  "fl (5404319552844595 / 4503599627370496) = 5404319552844595 / 4503599627370496"
  "fl (6 / 5) = 5404319552844595 / 4503599627370496"
  "fl (- (1351079888211149 / 1125899906842624)) = - (1351079888211149 / 1125899906842624)"
  "fl (1351079888211149 / 1125899906842624) = 1351079888211149 / 1125899906842624"
  "fl (- (3 / 2)) = - (3 / 2)"
  "fl (3 / 2) = 3 / 2"
  "fl (- (900719925474099 / 562949953421312)) = - (900719925474099 / 562949953421312)"
  "fl (- (7205759403792793 / 4503599627370496)) = - (7205759403792793 / 4503599627370496)"
  by code_simp+

lemma fl_table_3:
  "fl (7205759403792793 / 4503599627370496) = 7205759403792793 / 4503599627370496"
  "fl (8 / 5) = 3602879701896397 / 2251799813685248"
  "fl (- (3602879701896397 / 2251799813685248)) = - (3602879701896397 / 2251799813685248)"
  "fl (3602879701896397 / 2251799813685248) = 3602879701896397 / 2251799813685248"
  "fl (- (1801439850948199 / 1125899906842624)) = - (1801439850948199 / 1125899906842624)"
  "fl (1801439850948199 / 1125899906842624) = 1801439850948199 / 1125899906842624"
  "fl (- (15 / 8)) = - (15 / 8)"
  "fl (15 / 8) = 15 / 8"
  "fl (- 2) = - 2"
  "fl 2 = 2"
  "fl (- (9 / 4)) = - (9 / 4)"
  "fl (9 / 4) = 9 / 4"
  "fl (- (5122844576133939 / 2251799813685248)) = - (5122844576133939 / 2251799813685248)"
  by code_simp+

lemma fl_table_4:
  "fl (- (5404319552844595 / 2251799813685248)) = - (5404319552844595 / 2251799813685248)"
  "fl (5404319552844595 / 2251799813685248) = 5404319552844595 / 2251799813685248"
  "fl (12 / 5) = 5404319552844595 / 2251799813685248"
  "fl (- (1351079888211149 / 562949953421312)) = - (1351079888211149 / 562949953421312)"
  "fl (5 / 2) = 5 / 2"
  "fl (- (21 / 8)) = - (21 / 8)"
  "fl (21 / 8) = 21 / 8"
  "fl (3152519739159347 / 1125899906842624) = 3152519739159347 / 1125899906842624"
  "fl (14 / 5) = 3152519739159347 / 1125899906842624"
  "fl (- 3) = - 3"
  "fl 3 = 3"
  "fl (16 / 5) = 3602879701896397 / 1125899906842624"
  "fl (- (3602879701896397 / 1125899906842624)) = - (3602879701896397 / 1125899906842624)"
  by code_simp+

lemma fl_table_5:
  "fl (3602879701896397 / 1125899906842624) = 3602879701896397 / 1125899906842624"
  "fl (27 / 8) = 27 / 8"
  "fl (7 / 2) = 7 / 2"
  "fl (18 / 5) = 8106479329266893 / 2251799813685248"
  "fl (- (8106479329266893 / 2251799813685248)) = - (8106479329266893 / 2251799813685248)"
  "fl (8106479329266893 / 2251799813685248) = 8106479329266893 / 2251799813685248"
  "fl (149 / 40) = 8387954305977549 / 2251799813685248"
  "fl (8387954305977549 / 2251799813685248) = 8387954305977549 / 2251799813685248"
  "fl (- (15 / 4)) = - (15 / 4)"
  "fl (15 / 4) = 15 / 4"
  "fl (- 4) = - 4"
  "fl 4 = 4"
  "fl (33 / 8) = 33 / 8"
  by code_simp+

lemma fl_table_6:
  "fl (22 / 5) = 2476979795053773 / 562949953421312"
  "fl (2476979795053773 / 562949953421312) = 2476979795053773 / 562949953421312"
  "fl (- (9 / 2)) = - (9 / 2)"
  "fl (9 / 2) = 9 / 2"
  "fl (- (5404319552844595 / 1125899906842624)) = - (5404319552844595 / 1125899906842624)"
  "fl (5404319552844595 / 1125899906842624) = 5404319552844595 / 1125899906842624"
  "fl (24 / 5) = 5404319552844595 / 1125899906842624"
  "fl (- (21617278211378381 / 4503599627370496)) = - (5404319552844595 / 1125899906842624)"
  "fl (39 / 8) = 39 / 8"
  "fl (- 5) = - 5"
  "fl 5 = 5"
  "fl (26 / 5) = 5854679515581645 / 1125899906842624"
  "fl (5854679515581645 / 1125899906842624) = 5854679515581645 / 1125899906842624"
  by code_simp+

lemma fl_table_7:
  "fl (- (21 / 4)) = - (21 / 4)"
  "fl (21 / 4) = 21 / 4"
  "fl (11 / 2) = 11 / 2"
  "fl (3152519739159347 / 562949953421312) = 3152519739159347 / 562949953421312"
  "fl (28 / 5) = 3152519739159347 / 562949953421312"
  "fl (45 / 8) = 45 / 8"
  "fl (- 6) = - 6"
  "fl 6 = 6"
  "fl (32 / 5) = 3602879701896397 / 562949953421312"
  "fl (3602879701896397 / 562949953421312) = 3602879701896397 / 562949953421312"
  "fl (13 / 2) = 13 / 2"
  "fl (7656119366529843 / 1125899906842624) = 7656119366529843 / 1125899906842624"
  "fl (34 / 5) = 7656119366529843 / 1125899906842624"
  by code_simp+

lemma fl_table_8:
  "fl (- 7) = - 7"
  "fl 7 = 7"
  "fl (36 / 5) = 8106479329266893 / 1125899906842624"
  "fl (8106479329266893 / 1125899906842624) = 8106479329266893 / 1125899906842624"
  "fl (- (15 / 2)) = - (15 / 2)"
  "fl (15 / 2) = 15 / 2"
  "fl (4278419646001971 / 562949953421312) = 4278419646001971 / 562949953421312"
  "fl (38 / 5) = 4278419646001971 / 562949953421312"
  "fl (- 8) = - 8"
  "fl 8 = 8"
  by code_simp+

lemmas fl_table = fl_table_1 fl_table_2 fl_table_3 fl_table_4 fl_table_5 fl_table_6 fl_table_7 fl_table_8

subsection \<open>Interpolation\<close>

lemma interpolate_loop_step:
  "i \<le> steps \<Longrightarrow>
   interpolate_loop segment steps i acc =
     interpolate_loop segment steps (Suc i)
       (acc @ [lerpDouble segment (fl (real i / real steps))])"
  by (subst interpolate_loop.simps) (simp add: lerpDouble_def Let_def)

lemma interpolate_loop_stop:
  "\<not> i \<le> steps \<Longrightarrow> interpolate_loop segment steps i acc = acc"
  by (subst interpolate_loop.simps) simp

lemma interpolate_loop_map:
  "i \<le> Suc steps \<Longrightarrow>
   interpolate_loop segment steps i acc =
     acc @ map (\<lambda>k. lerpDouble segment (fl (real k / real steps))) [i..<Suc steps]"
proof (induction "Suc steps - i" arbitrary: i acc)
  case 0
  then have "i = Suc steps" by simp
  then show ?case by (simp add: interpolate_loop_stop)
next
  case (Suc d)
  then have le: "i \<le> steps" and d: "d = Suc steps - Suc i" by simp_all
  have "interpolate_loop segment steps i acc =
          (acc @ [lerpDouble segment (fl (real i / real steps))]) @
            map (\<lambda>k. lerpDouble segment (fl (real k / real steps))) [Suc i..<Suc steps]"
    using Suc.hyps(1) [OF d] le by (simp add: interpolate_loop_step del: upt_Suc)
  also have "\<dots> = acc @ map (\<lambda>k. lerpDouble segment (fl (real k / real steps))) [i..<Suc steps]"
    using le by (simp add: upt_conv_Cons del: upt_Suc)
  finally show ?case .
qed

lemma interpolateSegment_map:
  "interpolateSegment segment (Some n) =
     map (\<lambda>k. lerpDouble segment (fl (real k / real n))) [0..<Suc n]"
  by (simp add: interpolateSegment_def interpolate_loop_map del: upt_Suc)

lemma interpolateSegment_default:
  "interpolateSegment segment None = interpolateSegment segment (Some 20)"
  by (simp add: interpolateSegment_def)

lemma lerpDouble_zero:
  "lerpDouble segment 0 = (fl (fst (fst segment)), fl (snd (fst segment)))"
  by (simp add: lerpDouble_def)





subsection \<open>Compiling a glyph\<close>

lemma interpolate_default_length: "length (interpolateSegment segment None) = 21"
  by (simp add: interpolateSegment_default interpolateSegment_map del: upt_Suc)

lemma interpolate_default_nonempty: "interpolateSegment segment None \<noteq> []"
  using interpolate_default_length [of segment] by auto

lemma interpolate_default_hd:
  "hd (interpolateSegment segment None) = (fl (fst (fst segment)), fl (snd (fst segment)))"
proof -
  have "hd (interpolateSegment segment None) = interpolateSegment segment None ! 0"
    by (simp add: hd_conv_nth interpolate_default_nonempty)
  also have "\<dots> = lerpDouble segment 0"
    by (simp add: interpolateSegment_default interpolateSegment_map upt_conv_Cons del: upt_Suc)
  finally show ?thesis by (simp add: lerpDouble_zero)
qed

lemma interpolate_default_last: "last (interpolateSegment segment None) = endsAt segment"
proof -
  have "last (interpolateSegment segment None) = lerpDouble segment (fl (real 20 / real 20))"
    by (simp add: interpolateSegment_default interpolateSegment_map last_map
          del: upt_Suc of_nat_numeral)
  then show ?thesis by (simp add: endsAt_def)
qed

text \<open>One pass of the loop body, as a function of the points emitted so far.\<close>

lemma flattenSegments_append:
  "flattenSegments (xs @ ys) emitted = flattenSegments ys (flattenSegments xs emitted)"
  by (induction xs arbitrary: emitted) (simp_all add: Let_def)

lemma flattenSegments_snoc:
  "flattenSegments (segs @ [segment]) [] =
     (let emitted = flattenSegments segs [];
          interpolated = interpolateSegment segment None
      in if emitted \<noteq> [] \<and> last emitted = hd interpolated
         then emitted @ tl interpolated else emitted @ interpolated)"
  by (simp add: flattenSegments_append Let_def interpolate_default_nonempty
        prod_eq_iff drop_Suc)

text \<open>The last point emitted is the one computed for the end of the last segment.\<close>

lemma flattenSegments_last:
  "segs \<noteq> [] \<Longrightarrow>
   flattenSegments segs [] \<noteq> [] \<and> last (flattenSegments segs []) = endsAt (last segs)"
proof (induction segs rule: rev_induct)
  case Nil
  then show ?case by simp
next
  case (snoc segment segs)
  have ne: "interpolateSegment segment None \<noteq> []"
    by (rule interpolate_default_nonempty)
  have tl_ne: "tl (interpolateSegment segment None) \<noteq> []"
    using interpolate_default_length [of segment]
    by (cases "interpolateSegment segment None") auto
  have tl_last: "last (tl (interpolateSegment segment None)) = endsAt segment"
    using tl_ne interpolate_default_last [of segment]
    by (metis last_tl list.sel(2))
  show ?case
    using ne tl_ne tl_last interpolate_default_last [of segment]
    by (simp add: flattenSegments_snoc Let_def)
qed

lemma flattenSegments_prefix:
  "\<exists>more. flattenSegments segs emitted = emitted @ more"
proof (induction segs arbitrary: emitted)
  case Nil
  then show ?case by simp
next
  case (Cons segment segs)
  show ?case
  proof (cases "length emitted > 0 \<and> length (interpolateSegment segment None) > 0 \<and>
            fst (last emitted) = fst (hd (interpolateSegment segment None)) \<and>
            snd (last emitted) = snd (hd (interpolateSegment segment None))")
    case True
    then have "flattenSegments (segment # segs) emitted =
                 flattenSegments segs (emitted @ drop 1 (interpolateSegment segment None))"
      by (simp add: Let_def)
    with Cons.IH [of "emitted @ drop 1 (interpolateSegment segment None)"]
    show ?thesis by auto
  next
    case False
    then have "flattenSegments (segment # segs) emitted =
                 flattenSegments segs (emitted @ interpolateSegment segment None)"
      by (simp only: flattenSegments.simps Let_def if_False)
    with Cons.IH [of "emitted @ interpolateSegment segment None"]
    show ?thesis by auto
  qed
qed

lemma flattenSegments_first:
  "segs \<noteq> [] \<Longrightarrow>
   hd (flattenSegments segs []) = hd (interpolateSegment (hd segs) None)
   \<and> 21 \<le> length (flattenSegments segs [])"
proof (cases segs)
  case Nil
  assume "segs \<noteq> []"
  with Nil show ?thesis by simp
next
  case (Cons segment rest)
  obtain more where "flattenSegments rest (interpolateSegment segment None) =
      interpolateSegment segment None @ more"
    using flattenSegments_prefix by blast
  then have "flattenSegments segs [] = interpolateSegment segment None @ more"
    using Cons by (simp add: Let_def)
  then show ?thesis
    using Cons interpolate_default_nonempty [of segment]
      interpolate_default_length [of segment]
    by simp
qed

text \<open>Counting joins.\<close>

lemma coincidingJoins_joinsBy: "coincidingJoins segs = joinsBy snd segs"
  by (simp add: coincidingJoins_def joinsBy_def)

lemma joinsBy_snoc:
  "joinsBy ends (segs @ [segment]) =
     joinsBy ends segs + (if segs \<noteq> [] \<and> ends (last segs) = fst segment then 1 else 0)"
proof (cases "segs = []")
  case True
  then show ?thesis by (simp add: joinsBy_def)
next
  case False
  then have upt: "[0..<length segs] = [0..<length segs - 1] @ [length segs - 1]"
    by (metis Suc_diff_1 length_greater_0_conv upt_Suc_append zero_le)
  have inner: "filter (\<lambda>k. ends ((segs @ [segment]) ! k) = fst ((segs @ [segment]) ! Suc k))
                  [0..<length segs - 1] =
               filter (\<lambda>k. ends (segs ! k) = fst (segs ! Suc k)) [0..<length segs - 1]"
    by (rule filter_cong) (auto simp: nth_append)
  have lst: "(segs @ [segment]) ! (length segs - 1) = last segs"
    using False by (simp add: nth_append last_conv_nth)
  have nxt: "(segs @ [segment]) ! Suc (length segs - 1) = segment"
    using False by simp
  have "joinsBy ends (segs @ [segment]) =
          length (filter (\<lambda>k. ends ((segs @ [segment]) ! k) = fst ((segs @ [segment]) ! Suc k))
                    ([0..<length segs - 1] @ [length segs - 1]))"
    using upt by (simp add: joinsBy_def)
  also have "\<dots> = joinsBy ends segs + (if ends (last segs) = fst segment then 1 else 0)"
    unfolding filter_append inner using lst nxt by (simp add: joinsBy_def del: upt_Suc)
  finally show ?thesis using False by simp
qed

lemma joinsBy_cong:
  assumes "\<And>k. Suc k < length segs \<Longrightarrow>
             (ends (segs ! k) = fst (segs ! Suc k)) = (ends' (segs ! k) = fst (segs ! Suc k))"
  shows "joinsBy ends segs = joinsBy ends' segs"
proof -
  have "filter (\<lambda>k. ends (segs ! k) = fst (segs ! Suc k)) [0..<length segs - 1] =
        filter (\<lambda>k. ends' (segs ! k) = fst (segs ! Suc k)) [0..<length segs - 1]"
    by (rule filter_cong) (use assms in auto)
  then show ?thesis by (simp add: joinsBy_def)
qed

text \<open>
  The length of the compiled sequence, for segments that start at doubles: a
  point is dropped at each join where the computed end of a segment is the start
  of the next one.
\<close>

lemma flattenSegments_length_computed:
  "startsDouble segs \<Longrightarrow>
   length (flattenSegments segs []) + joinsBy endsAt segs = 21 * length segs"
proof (induction segs rule: rev_induct)
  case Nil
  then show ?case by (simp add: joinsBy_def)
next
  case (snoc segment segs)
  then have starts: "startsDouble segs"
    and start: "fl (fst (fst segment)) = fst (fst segment)"
      "fl (snd (fst segment)) = snd (fst segment)"
    by (simp_all add: startsDouble_def)
  have hd_eq: "hd (interpolateSegment segment None) = fst segment"
    using start by (simp add: interpolate_default_hd prod_eq_iff)
  have tl_len: "length (tl (interpolateSegment segment None)) = 20"
    by (simp add: interpolate_default_length)
  show ?case
  proof (cases "segs = []")
    case True
    then show ?thesis
      by (simp add: flattenSegments_snoc joinsBy_def interpolate_default_length)
  next
    case False
    then have "flattenSegments segs [] \<noteq> []"
      and "last (flattenSegments segs []) = endsAt (last segs)"
      using flattenSegments_last by blast+
    then show ?thesis
      using snoc.IH [OF starts] False tl_len hd_eq
      by (simp add: flattenSegments_snoc joinsBy_snoc Let_def interpolate_default_length)
  qed
qed

lemma exactJoins_joins:
  assumes "exactJoins segs"
  shows "joinsBy endsAt segs = coincidingJoins segs"
proof -
  have all: "list_all (\<lambda>(segment, following).
               (endsAt segment = fst following) = (snd segment = fst following))
             (zip segs (tl segs))"
    using assms by (simp add: exactJoins_def)
  have "(endsAt (segs ! k) = fst (segs ! Suc k)) = (snd (segs ! k) = fst (segs ! Suc k))"
    if "Suc k < length segs" for k
  proof -
    from that have k: "k < length (zip segs (tl segs))" by simp
    from that have "zip segs (tl segs) ! k = (segs ! k, segs ! Suc k)"
      by (simp add: nth_tl)
    with all k show ?thesis
      by (auto simp add: list_all_length)
  qed
  then show ?thesis
    unfolding coincidingJoins_joinsBy by (rule joinsBy_cong)
qed

lemma flattenSegments_length:
  "exactJoins segs \<Longrightarrow>
   length (flattenSegments segs []) + coincidingJoins segs = 21 * length segs"
  using flattenSegments_length_computed [of segs] exactJoins_joins [of segs]
  by (simp add: exactJoins_def)

lemma flattenSegments_ends:
  assumes "segs \<noteq> []" and "exactJoins segs"
  shows "hd (flattenSegments segs []) = fst (hd segs)"
    and "last (flattenSegments segs []) = snd (last segs)"
proof -
  from assms have "hd segs \<in> set segs" by simp
  with assms(2) have "fl (fst (fst (hd segs))) = fst (fst (hd segs))"
    "fl (snd (fst (hd segs))) = snd (fst (hd segs))"
    by (simp_all add: exactJoins_def startsDouble_def list_all_iff)
  then show "hd (flattenSegments segs []) = fst (hd segs)"
    using flattenSegments_first [OF assms(1)]
    by (simp add: interpolate_default_hd prod_eq_iff)
  show "last (flattenSegments segs []) = snd (last segs)"
    using flattenSegments_last [OF assms(1)] assms(2) by (simp add: exactJoins_def)
qed

text \<open>
  In each glyph of the table the segments start at doubles, the computed end of
  a segment is the start of the next one exactly when the two are the same pair
  of literals, and the last segment ends at its end point.
\<close>

lemma glyph_A_exactJoins: "exactJoins glyph_A"
  by (simp add: exactJoins_def startsDouble_def glyph_A_def literals_def endsAt_def
        lerpDouble_def fl_table)

lemma glyph_B_exactJoins: "exactJoins glyph_B"
  by (simp add: exactJoins_def startsDouble_def glyph_B_def literals_def endsAt_def
        lerpDouble_def fl_table)

lemma glyph_C_exactJoins: "exactJoins glyph_C"
  by (simp add: exactJoins_def startsDouble_def glyph_C_def literals_def endsAt_def
        lerpDouble_def fl_table)

lemma glyph_D_exactJoins: "exactJoins glyph_D"
  by (simp add: exactJoins_def startsDouble_def glyph_D_def literals_def endsAt_def
        lerpDouble_def fl_table)

lemma glyph_E_exactJoins: "exactJoins glyph_E"
  by (simp add: exactJoins_def startsDouble_def glyph_E_def literals_def endsAt_def
        lerpDouble_def fl_table)

lemma glyph_F_exactJoins: "exactJoins glyph_F"
  by (simp add: exactJoins_def startsDouble_def glyph_F_def literals_def endsAt_def
        lerpDouble_def fl_table)

lemma glyph_G_exactJoins: "exactJoins glyph_G"
  by (simp add: exactJoins_def startsDouble_def glyph_G_def literals_def endsAt_def
        lerpDouble_def fl_table)

lemma glyph_H_exactJoins: "exactJoins glyph_H"
  by (simp add: exactJoins_def startsDouble_def glyph_H_def literals_def endsAt_def
        lerpDouble_def fl_table)

lemma glyph_I_exactJoins: "exactJoins glyph_I"
  by (simp add: exactJoins_def startsDouble_def glyph_I_def literals_def endsAt_def
        lerpDouble_def fl_table)

lemma glyph_J_exactJoins: "exactJoins glyph_J"
  by (simp add: exactJoins_def startsDouble_def glyph_J_def literals_def endsAt_def
        lerpDouble_def fl_table)

lemma glyph_K_exactJoins: "exactJoins glyph_K"
  by (simp add: exactJoins_def startsDouble_def glyph_K_def literals_def endsAt_def
        lerpDouble_def fl_table)

lemma glyph_L_exactJoins: "exactJoins glyph_L"
  by (simp add: exactJoins_def startsDouble_def glyph_L_def literals_def endsAt_def
        lerpDouble_def fl_table)

lemma glyph_M_exactJoins: "exactJoins glyph_M"
  by (simp add: exactJoins_def startsDouble_def glyph_M_def literals_def endsAt_def
        lerpDouble_def fl_table)

lemma glyph_N_exactJoins: "exactJoins glyph_N"
  by (simp add: exactJoins_def startsDouble_def glyph_N_def literals_def endsAt_def
        lerpDouble_def fl_table)

lemmas glyphs_exactJoins =
  glyph_A_exactJoins glyph_B_exactJoins glyph_C_exactJoins glyph_D_exactJoins
  glyph_E_exactJoins glyph_F_exactJoins glyph_G_exactJoins glyph_H_exactJoins
  glyph_I_exactJoins glyph_J_exactJoins glyph_K_exactJoins glyph_L_exactJoins
  glyph_M_exactJoins glyph_N_exactJoins

lemma table_entry_exactJoins:
  "CHARACTER_DRAWING_DATA c = Some segs \<Longrightarrow> exactJoins segs"
  using glyphs_exactJoins
  by (auto simp add: CHARACTER_DRAWING_DATA_def split: if_splits)

text \<open>
  Of the 256 segments of the table, two do not end at their end point: the
  fourteenth and the twentieth segment of the glyph B, which both end at the
  double above the one that the literal \<open>1.2\<close> denotes. Neither is followed by a
  segment that starts at its end point.
\<close>

lemma glyphs_exact_ends:
  "list_all (\<lambda>segment. endsAt segment = snd segment) glyph_A"
  "list_all (\<lambda>segment. endsAt segment = snd segment) glyph_C"
  "list_all (\<lambda>segment. endsAt segment = snd segment) glyph_D"
  "list_all (\<lambda>segment. endsAt segment = snd segment) glyph_E"
  "list_all (\<lambda>segment. endsAt segment = snd segment) glyph_F"
  "list_all (\<lambda>segment. endsAt segment = snd segment) glyph_G"
  "list_all (\<lambda>segment. endsAt segment = snd segment) glyph_H"
  "list_all (\<lambda>segment. endsAt segment = snd segment) glyph_I"
  "list_all (\<lambda>segment. endsAt segment = snd segment) glyph_J"
  "list_all (\<lambda>segment. endsAt segment = snd segment) glyph_K"
  "list_all (\<lambda>segment. endsAt segment = snd segment) glyph_L"
  "list_all (\<lambda>segment. endsAt segment = snd segment) glyph_M"
  "list_all (\<lambda>segment. endsAt segment = snd segment) glyph_N"
  by (simp_all add: glyph_A_def glyph_C_def glyph_D_def glyph_E_def glyph_F_def glyph_G_def
        glyph_H_def glyph_I_def glyph_J_def glyph_K_def glyph_L_def glyph_M_def glyph_N_def
        literals_def endsAt_def lerpDouble_def fl_table)

lemma glyph_B_inexact_ends:
  "filter (\<lambda>k. endsAt (glyph_B ! k) \<noteq> snd (glyph_B ! k)) [0..<length glyph_B] = [13, 19]"
  by (simp add: glyph_B_def literals_def endsAt_def lerpDouble_def fl_table upt_conv_Cons)

lemma glyphs_nonempty:
  "glyph_A \<noteq> []" "glyph_B \<noteq> []" "glyph_C \<noteq> []" "glyph_D \<noteq> []" "glyph_E \<noteq> []"
  "glyph_F \<noteq> []" "glyph_G \<noteq> []" "glyph_H \<noteq> []" "glyph_I \<noteq> []" "glyph_J \<noteq> []"
  "glyph_K \<noteq> []" "glyph_L \<noteq> []" "glyph_M \<noteq> []" "glyph_N \<noteq> []"
  by (simp_all add: glyph_A_def glyph_B_def glyph_C_def glyph_D_def glyph_E_def glyph_F_def
        glyph_G_def glyph_H_def glyph_I_def glyph_J_def glyph_K_def glyph_L_def glyph_M_def
        glyph_N_def literals_def)

lemma table_entry_nonempty:
  "CHARACTER_DRAWING_DATA c = Some segs \<Longrightarrow> segs \<noteq> []"
  using glyphs_nonempty
  by (auto simp add: CHARACTER_DRAWING_DATA_def split: if_splits)

lemma script_table_subset:
  "script_CHARACTER_DRAWING_DATA c = Some segs \<Longrightarrow> CHARACTER_DRAWING_DATA c = Some segs"
  by (auto simp add: CHARACTER_DRAWING_DATA_def script_CHARACTER_DRAWING_DATA_def
        split: if_splits)

lemma prepare_found:
  "table c = Some segs \<Longrightarrow>
   prepareAnimationForCharacter table c st =
     (st\<lparr>processedPointsForCurrentChar := flattenSegments segs [],
         totalFramesForCurrentChar := length (flattenSegments segs []),
         currentFrame := 0\<rparr>, True)"
  by (simp add: prepareAnimationForCharacter_def Let_def)

lemma prepare_missing:
  "table c = None \<Longrightarrow>
   prepareAnimationForCharacter table c st =
     (st\<lparr>processedPointsForCurrentChar := [], totalFramesForCurrentChar := 0\<rparr>, False)"
  by (simp add: prepareAnimationForCharacter_def)

text \<open>
  C2. For a character of the glyph table, the compiled sequence is the
  concatenation of the interpolations of its segments, in their order, where the
  first point of an interpolation is dropped exactly when it is equal to the last
  point emitted so far; so its length is the sum of \<open>n + 1\<close> over the
  segments, less one for each pair of consecutive segments whose join point
  coincides.
\<close>

theorem prepareAnimationForCharacter_joins:
  assumes "CHARACTER_DRAWING_DATA c = Some segs"
  shows "prepareAnimationForCharacter CHARACTER_DRAWING_DATA c st =
           (st\<lparr>processedPointsForCurrentChar := flattenSegments segs [],
               totalFramesForCurrentChar := length (flattenSegments segs []),
               currentFrame := 0\<rparr>, True)
       \<and> (\<forall>k<length segs.
            flattenSegments (take (Suc k) segs) [] =
              (let emitted = flattenSegments (take k segs) [];
                   interpolated = interpolateSegment (segs ! k) (Some 20)
               in if emitted \<noteq> [] \<and> last emitted = hd interpolated
                  then emitted @ tl interpolated else emitted @ interpolated))
       \<and> length (flattenSegments segs []) + coincidingJoins segs = (\<Sum>segment\<leftarrow>segs. 20 + 1)"
proof -
  have rule: "flattenSegments (take (Suc k) segs) [] =
              (let emitted = flattenSegments (take k segs) [];
                   interpolated = interpolateSegment (segs ! k) (Some 20)
               in if emitted \<noteq> [] \<and> last emitted = hd interpolated
                  then emitted @ tl interpolated else emitted @ interpolated)"
    if "k < length segs" for k
  proof -
    from that have "take (Suc k) segs = take k segs @ [segs ! k]"
      by (rule take_Suc_conv_app_nth)
    then show ?thesis
      by (simp only: flattenSegments_snoc interpolateSegment_default)
  qed
  have "(\<Sum>segment\<leftarrow>segs. 20 + 1) = 21 * length segs"
    by (induction segs) simp_all
  with flattenSegments_length [OF table_entry_exactJoins [OF assms]] rule
    prepare_found [of CHARACTER_DRAWING_DATA c segs st, OF assms]
  show ?thesis by simp
qed

text \<open>The glyph J: ten segments, two coinciding joins, 208 points.\<close>

theorem prepareAnimationForCharacter_joins_witness:
  "CHARACTER_DRAWING_DATA (CHR ''J'') = Some glyph_J
   \<and> coincidingJoins glyph_J = 2
   \<and> length (flattenSegments glyph_J []) = 208
   \<and> snd (prepareAnimationForCharacter CHARACTER_DRAWING_DATA (CHR ''J'') (initialWorld 0 0))"
proof -
  have entry: "CHARACTER_DRAWING_DATA (CHR ''J'') = Some glyph_J"
    by (simp add: CHARACTER_DRAWING_DATA_def)
  have joins: "coincidingJoins glyph_J = 2"
    by (simp add: coincidingJoins_def glyph_J_def literals_def fl_table upt_conv_Cons)
  have total: "(\<Sum>segment\<leftarrow>glyph_J. 20 + 1) = (210::nat)"
    by (simp add: glyph_J_def literals_def)
  from prepareAnimationForCharacter_joins [OF entry, of "initialWorld 0 0"] joins total entry
  show ?thesis by simp
qed

subsection \<open>Viewport fit and coordinate transform\<close>

lemma DATA_RANGE_values: "DATA_RANGE_X = 10.5" "DATA_RANGE_Y = 10.5"
  by (simp_all add: DATA_RANGE_X_def DATA_RANGE_Y_def X_MAX_def X_MIN_def Y_MAX_def Y_MIN_def)

lemma requestAnimationFrame_fields:
  "snd (requestAnimationFrame cb st) =
     st\<lparr>pending := pending st @ [(nextHandle st, cb)], nextHandle := Suc (nextHandle st)\<rparr>"
  "fst (requestAnimationFrame cb st) = nextHandle st"
  by (simp_all add: requestAnimationFrame_def)

lemma calculate_fields:
  "calculateWordScalingAndOffset word st =
     st\<lparr>wordScaleFactor := wordScaleFactor (calculateWordScalingAndOffset word st),
        centerXOffsetPixels := centerXOffsetPixels (calculateWordScalingAndOffset word st),
        centerYOffsetPixels := centerYOffsetPixels (calculateWordScalingAndOffset word st)\<rparr>"
  by (simp add: calculateWordScalingAndOffset_def Let_def)

lemma calculate_wordScaleFactor:
  "wordScaleFactor (calculateWordScalingAndOffset word st) =
     min (if real (length word) * CHAR_WIDTH_DATA_UNITS * baseScale st > currentCanvasWidth st
          then currentCanvasWidth st / (real (length word) * CHAR_WIDTH_DATA_UNITS * baseScale st) * 0.95
          else 1)
         (if DATA_RANGE_Y * baseScale st > currentCanvasHeight st
          then currentCanvasHeight st / (DATA_RANGE_Y * baseScale st) * 0.95
          else 1)"
  by (simp add: calculateWordScalingAndOffset_def Let_def)

lemma calculate_keeps [simp]:
  "baseScale (calculateWordScalingAndOffset word st) = baseScale st"
  "currentCanvasWidth (calculateWordScalingAndOffset word st) = currentCanvasWidth st"
  "currentCanvasHeight (calculateWordScalingAndOffset word st) = currentCanvasHeight st"
  by (simp_all add: calculateWordScalingAndOffset_def Let_def)

lemma update_baseScale:
  "baseScale (updateCanvasDimensions st) =
     (if min (real (clientWidth st)) (real (clientHeight st)) = 0 then 0
      else min (real (clientWidth st)) (real (clientHeight st)) / max DATA_RANGE_X DATA_RANGE_Y
             * SIZE_MULTIPLIER)"
  unfolding updateCanvasDimensions_def Let_def requestAnimationFrame_fields
  by (simp add: DATA_RANGE_values del: min_less_iff_conj max_less_iff_conj)

lemma update_dimensions:
  "currentCanvasWidth (updateCanvasDimensions st) = real (clientWidth st)"
  "currentCanvasHeight (updateCanvasDimensions st) = real (clientHeight st)"
  unfolding updateCanvasDimensions_def Let_def requestAnimationFrame_fields
  by simp_all

lemma update_baseScale_nonneg: "0 \<le> baseScale (updateCanvasDimensions st)"
  by (simp add: update_baseScale DATA_RANGE_values SIZE_MULTIPLIER_def)

text \<open>
  C8. With both viewport dimensions positive, the base scale is the smaller of
  them divided by the larger of the two logical extents, times the size
  multiplier. With a dimension of 0 the base scale is 0, by the guard of the
  script and without dividing, and then every point is mapped to one and the same
  pixel position: no stroke has any extent.
\<close>

theorem updateCanvasDimensions_baseScale:
  "(0 < clientWidth st \<and> 0 < clientHeight st \<longrightarrow>
      baseScale (updateCanvasDimensions st) =
        min (real (clientWidth st)) (real (clientHeight st)) / max DATA_RANGE_X DATA_RANGE_Y
          * SIZE_MULTIPLIER)
   \<and> (clientWidth st = 0 \<or> clientHeight st = 0 \<longrightarrow>
        baseScale (updateCanvasDimensions st) = 0
        \<and> (\<forall>x y offset. transformPoint (updateCanvasDimensions st) x y offset =
                         transformPoint (updateCanvasDimensions st) 0 0 0))"
proof (intro conjI impI)
  assume "0 < clientWidth st \<and> 0 < clientHeight st"
  then show "baseScale (updateCanvasDimensions st) =
        min (real (clientWidth st)) (real (clientHeight st)) / max DATA_RANGE_X DATA_RANGE_Y
          * SIZE_MULTIPLIER"
    by (simp add: update_baseScale)
next
  assume zero: "clientWidth st = 0 \<or> clientHeight st = 0"
  then show base: "baseScale (updateCanvasDimensions st) = 0"
    by (auto simp add: update_baseScale)
  show "\<forall>x y offset. transformPoint (updateCanvasDimensions st) x y offset =
                         transformPoint (updateCanvasDimensions st) 0 0 0"
    using base by (simp add: transformPoint_def)
qed

text \<open>
  A viewport of 800 by 600, and one of width 0.
\<close>

theorem updateCanvasDimensions_baseScale_witness:
  "baseScale (updateCanvasDimensions (initialWorld 800 600)) = 600 / 10.5 * 1.8
   \<and> baseScale (updateCanvasDimensions (initialWorld 0 600)) = 0
   \<and> transformPoint (updateCanvasDimensions (initialWorld 0 600)) 6 8 7 = (0, 600)"
proof -
  have "transformPoint (updateCanvasDimensions (initialWorld 0 600)) 0 0 0 = (0, 600)"
    by (simp add: transformPoint_def updateCanvasDimensions_def Let_def initialWorld_def
          requestAnimationFrame_fields DATA_RANGE_values)
  then show ?thesis
    using updateCanvasDimensions_baseScale [of "initialWorld 800 600"]
      updateCanvasDimensions_baseScale [of "initialWorld 0 600"]
    by (simp add: initialWorld_def DATA_RANGE_values SIZE_MULTIPLIER_def)
qed

text \<open>
  C6. \<open>transformPoint\<close> adds the slot offset to the local x, scales both axes
  by base scale times word scale factor relative to the origin of the data space,
  adds the centring offsets and inverts the y axis against the viewport height.
  It reads the state and changes nothing; two states that agree on the product
  of the scales, on the two offsets and on the viewport height give the same
  pixel. \<open>drawPath\<close> applies it with the slot offset of the character, which
  its callers compute as index times \<open>CHAR_WIDTH_DATA_UNITS\<close>.
\<close>

theorem transformPoint_formula:
  "transformPoint st localX localY slotOffsetX =
     (((localX + slotOffsetX) - X_MIN) * (baseScale st * wordScaleFactor st)
        + centerXOffsetPixels st,
      currentCanvasHeight st -
        ((localY - Y_MIN) * (baseScale st * wordScaleFactor st) + centerYOffsetPixels st))
   \<and> (\<forall>st'. baseScale st' * wordScaleFactor st' = baseScale st * wordScaleFactor st
            \<and> centerXOffsetPixels st' = centerXOffsetPixels st
            \<and> centerYOffsetPixels st' = centerYOffsetPixels st
            \<and> currentCanvasHeight st' = currentCanvasHeight st
          \<longrightarrow> transformPoint st' localX localY slotOffsetX =
               transformPoint st localX localY slotOffsetX)
   \<and> (2 \<le> length points \<longrightarrow>
        canvas (drawPath points (real k * CHAR_WIDTH_DATA_UNITS) st) =
          canvas st @
            [map (\<lambda>p. transformPoint st (fst p) (snd p) (real k * CHAR_WIDTH_DATA_UNITS)) points])"
proof -
  have formula: "transformPoint s localX localY slotOffsetX =
     (((localX + slotOffsetX) - X_MIN) * (baseScale s * wordScaleFactor s)
        + centerXOffsetPixels s,
      currentCanvasHeight s -
        ((localY - Y_MIN) * (baseScale s * wordScaleFactor s) + centerYOffsetPixels s))" for s
    by (simp add: transformPoint_def Let_def mult.assoc)
  have "transformPoint st' localX localY slotOffsetX =
          transformPoint st localX localY slotOffsetX"
    if "baseScale st' * wordScaleFactor st' = baseScale st * wordScaleFactor st"
      and "centerXOffsetPixels st' = centerXOffsetPixels st"
      and "centerYOffsetPixels st' = centerYOffsetPixels st"
      and "currentCanvasHeight st' = currentCanvasHeight st" for st'
    using that by (simp only: formula)
  moreover have "canvas (drawPath points (real k * CHAR_WIDTH_DATA_UNITS) st) =
          canvas st @
            [map (\<lambda>p. transformPoint st (fst p) (snd p) (real k * CHAR_WIDTH_DATA_UNITS)) points]"
    if "2 \<le> length points"
    using that by (simp add: drawPath_def)
  ultimately show ?thesis
    using formula [of st] by blast
qed

text \<open>
  A state with scale 100 times 1/2 against one with 25 times 2.
\<close>

theorem transformPoint_formula_witness:
  "transformPoint
     ((initialWorld 1200 600)\<lparr>currentCanvasHeight := 600, baseScale := 100,
        wordScaleFactor := 1 / 2, centerXOffsetPixels := 10, centerYOffsetPixels := 20\<rparr>)
     6 8 7 = (685, 155)
   \<and> transformPoint
     ((initialWorld 1200 600)\<lparr>currentCanvasHeight := 600, baseScale := 25,
        wordScaleFactor := 2, centerXOffsetPixels := 10, centerYOffsetPixels := 20\<rparr>)
     6 8 7 = (685, 155)
   \<and> canvas (drawPath [(0, 0), (6, 8)] (real 1 * CHAR_WIDTH_DATA_UNITS)
        ((initialWorld 1200 600)\<lparr>currentCanvasHeight := 600, baseScale := 100,
           wordScaleFactor := 1 / 2, centerXOffsetPixels := 10, centerYOffsetPixels := 20\<rparr>))
       = [[(385, 555), (685, 155)]]"
proof -
  let ?st = "(initialWorld 1200 600)\<lparr>currentCanvasHeight := 600, baseScale := 100,
        wordScaleFactor := 1 / 2, centerXOffsetPixels := 10, centerYOffsetPixels := 20\<rparr>"
  let ?st' = "(initialWorld 1200 600)\<lparr>currentCanvasHeight := 600, baseScale := 25,
        wordScaleFactor := 2, centerXOffsetPixels := 10, centerYOffsetPixels := 20\<rparr>"
  note inst = transformPoint_formula [of ?st 6 8 7 "[(0, 0), (6, 8)]" 1]
  have same: "transformPoint ?st' 6 8 7 = transformPoint ?st 6 8 7"
    using inst [THEN conjunct2, THEN conjunct1, THEN spec, of ?st'] by simp
  have at: "transformPoint ?st 6 8 7 = (685, 155)"
    using inst [THEN conjunct1] by (simp add: X_MIN_def Y_MIN_def)
  have "canvas (drawPath [(0, 0), (6, 8)] (real 1 * CHAR_WIDTH_DATA_UNITS) ?st) =
          [[(385, 555), (685, 155)]]"
    using inst [THEN conjunct2, THEN conjunct2]
    by (simp add: initialWorld_def transformPoint_def CHAR_WIDTH_DATA_UNITS_def X_MIN_def Y_MIN_def)
  with same at show ?thesis by simp
qed

lemma fit_below_one:
  fixes W X :: real
  assumes "0 \<le> W" "W < X"
  shows "W / X * 0.95 < 1"
proof -
  from assms have "0 < X" by simp
  with assms have "W / X < 1" by simp
  then show ?thesis by simp
qed

lemma fit_antimono:
  fixes W X X' :: real
  assumes "0 \<le> W" "W < X" "X \<le> X'"
  shows "W / X' * 0.95 \<le> W / X * 0.95"
proof -
  from assms have "0 < X" by simp
  with assms have "W / X' \<le> W / X" by (simp add: frac_le)
  then show ?thesis by simp
qed

lemma calculate_min_fit:
  "wordScaleFactor (calculateWordScalingAndOffset word st) = min (widthFit st word) (heightFit st)"
  by (simp only: calculate_wordScaleFactor widthFit_def heightFit_def)

lemma widthFit_le_one:
  assumes "0 \<le> currentCanvasWidth st"
  shows "widthFit st word \<le> 1"
    and "widthFit st word < 1 \<longleftrightarrow>
         real (length word) * CHAR_WIDTH_DATA_UNITS * baseScale st > currentCanvasWidth st"
  using fit_below_one [OF assms, of "real (length word) * CHAR_WIDTH_DATA_UNITS * baseScale st"]
  by (auto simp add: widthFit_def)

lemma heightFit_le_one:
  assumes "0 \<le> currentCanvasHeight st"
  shows "heightFit st \<le> 1"
    and "heightFit st < 1 \<longleftrightarrow> DATA_RANGE_Y * baseScale st > currentCanvasHeight st"
  using fit_below_one [OF assms, of "DATA_RANGE_Y * baseScale st"]
  by (auto simp add: heightFit_def)

lemma widthFit_antimono:
  assumes W: "0 \<le> currentCanvasWidth st" and B: "0 \<le> baseScale st"
    and len: "length word \<le> length word'"
  shows "widthFit st word' \<le> widthFit st word"
proof -
  let ?X = "real (length word) * CHAR_WIDTH_DATA_UNITS * baseScale st"
  let ?X' = "real (length word') * CHAR_WIDTH_DATA_UNITS * baseScale st"
  have le: "?X \<le> ?X'"
    using len B by (simp add: CHAR_WIDTH_DATA_UNITS_def mult_right_mono)
  show ?thesis
  proof (cases "?X > currentCanvasWidth st")
    case True
    with le have "?X' > currentCanvasWidth st" by simp
    with True fit_antimono [OF W True le] show ?thesis
      by (simp add: widthFit_def)
  next
    case False
    then have "widthFit st word = 1" by (simp add: widthFit_def)
    with widthFit_le_one(1) [OF W, of word'] show ?thesis by simp
  qed
qed

text \<open>
  C5, as amended. For a fixed viewport the word scale factor is never above 1,
  a longer word never has a larger one, and it is below 1 exactly when the
  required width of the word at base scale exceeds the viewport width or the
  height of the data space at base scale exceeds the viewport height.
\<close>

theorem wordScaleFactor_fit:
  "(let viewport = updateCanvasDimensions st;
        factor = (\<lambda>w. wordScaleFactor (calculateWordScalingAndOffset w viewport))
    in factor word \<le> 1
       \<and> (length word \<le> length word' \<longrightarrow> factor word' \<le> factor word)
       \<and> (factor word < 1 \<longleftrightarrow>
            real (length word) * CHAR_WIDTH_DATA_UNITS * baseScale viewport
              > currentCanvasWidth viewport
            \<or> DATA_RANGE_Y * baseScale viewport > currentCanvasHeight viewport))"
proof -
  let ?vp = "updateCanvasDimensions st"
  have W: "0 \<le> currentCanvasWidth ?vp" and H: "0 \<le> currentCanvasHeight ?vp"
    by (simp_all add: update_dimensions)
  have B: "0 \<le> baseScale ?vp"
    by (rule update_baseScale_nonneg)
  have one: "min (widthFit ?vp word) (heightFit ?vp) \<le> 1"
    using widthFit_le_one(1) [OF W, of word] by simp
  have mono: "min (widthFit ?vp word') (heightFit ?vp) \<le> min (widthFit ?vp word) (heightFit ?vp)"
    if "length word \<le> length word'"
    using widthFit_antimono [OF W B that] by simp
  have below: "min (widthFit ?vp word) (heightFit ?vp) < 1 \<longleftrightarrow>
      real (length word) * CHAR_WIDTH_DATA_UNITS * baseScale ?vp > currentCanvasWidth ?vp
      \<or> DATA_RANGE_Y * baseScale ?vp > currentCanvasHeight ?vp"
    using widthFit_le_one(2) [OF W, of word] heightFit_le_one(2) [OF H]
    by (simp add: min_less_iff_disj)
  from one mono below show ?thesis
    by (simp only: Let_def calculate_min_fit) blast
qed

text \<open>
  The words A and AB in a viewport of 1200 by 600.
\<close>

theorem wordScaleFactor_fit_witness:
  "wordScaleFactor (calculateWordScalingAndOffset ''A'' (updateCanvasDimensions (initialWorld 1200 600))) \<le> 1
   \<and> length ''A'' \<le> length ''AB''
   \<and> wordScaleFactor (calculateWordScalingAndOffset ''AB'' (updateCanvasDimensions (initialWorld 1200 600)))
       \<le> wordScaleFactor (calculateWordScalingAndOffset ''A'' (updateCanvasDimensions (initialWorld 1200 600)))
   \<and> wordScaleFactor (calculateWordScalingAndOffset ''A'' (updateCanvasDimensions (initialWorld 1200 600))) < 1
   \<and> DATA_RANGE_Y * baseScale (updateCanvasDimensions (initialWorld 1200 600))
        > currentCanvasHeight (updateCanvasDimensions (initialWorld 1200 600))"
proof -
  have "DATA_RANGE_Y * baseScale (updateCanvasDimensions (initialWorld 1200 600))
        > currentCanvasHeight (updateCanvasDimensions (initialWorld 1200 600))"
    by (simp add: update_baseScale update_dimensions initialWorld_def DATA_RANGE_values
          SIZE_MULTIPLIER_def)
  then show ?thesis
    using wordScaleFactor_fit [of "initialWorld 1200 600" "''A''" "''AB''"]
    by (simp add: Let_def)
qed

text \<open>
  C5 as stated fails: in a viewport of 1200 by 600 the word A needs a width of
  720 pixels at base scale, which fits, and its scale factor is 19/36 all the
  same, because the height at base scale is 1080 pixels.
\<close>

theorem wordScaleFactor_width_only_counterexample:
  "wordScaleFactor (calculateWordScalingAndOffset ''A'' (updateCanvasDimensions (initialWorld 1200 600))) < 1
   \<and> \<not> real (length ''A'') * CHAR_WIDTH_DATA_UNITS * baseScale (updateCanvasDimensions (initialWorld 1200 600))
        > currentCanvasWidth (updateCanvasDimensions (initialWorld 1200 600))"
proof -
  let ?vp = "updateCanvasDimensions (initialWorld 1200 600)"
  have base: "baseScale ?vp = 720 / 7"
    by (simp add: update_baseScale initialWorld_def DATA_RANGE_values SIZE_MULTIPLIER_def)
  have dims: "currentCanvasWidth ?vp = 1200" "currentCanvasHeight ?vp = 600"
    by (simp_all add: update_dimensions initialWorld_def)
  have "wordScaleFactor (calculateWordScalingAndOffset ''A'' ?vp) = 19 / 36"
    by (simp add: calculate_wordScaleFactor base dims DATA_RANGE_values CHAR_WIDTH_DATA_UNITS_def)
  then show ?thesis
    by (simp add: base dims CHAR_WIDTH_DATA_UNITS_def)
qed

subsection \<open>What drawing changes\<close>

lemma drawPath_canvas_only:
  "drawPath points offset st = st\<lparr>canvas := canvas (drawPath points offset st)\<rparr>"
  by (simp add: drawPath_def)

lemma fold_drawPath_canvas_only:
  "fold (\<lambda>c. drawPath (processedPoints c) (xOffset c)) cs st =
     st\<lparr>canvas := canvas (fold (\<lambda>c. drawPath (processedPoints c) (xOffset c)) cs st)\<rparr>"
proof (induction cs arbitrary: st)
  case Nil
  then show ?case by simp
next
  case (Cons c cs)
  let ?d = "drawPath (processedPoints c) (xOffset c) st"
  let ?f = "fold (\<lambda>c. drawPath (processedPoints c) (xOffset c)) cs"
  have "?f ?d = ?d\<lparr>canvas := canvas (?f ?d)\<rparr>"
    by (rule Cons.IH)
  also have "\<dots> = (st\<lparr>canvas := canvas ?d\<rparr>)\<lparr>canvas := canvas (?f ?d)\<rparr>"
    using drawPath_canvas_only [of "processedPoints c" "xOffset c" st] by simp
  also have "\<dots> = st\<lparr>canvas := canvas (?f ?d)\<rparr>"
    by simp
  finally show ?case by simp
qed

lemma drawCompleted_canvas_only:
  "drawCompletedCharacters st = st\<lparr>canvas := canvas (drawCompletedCharacters st)\<rparr>"
  unfolding drawCompletedCharacters_def by (rule fold_drawPath_canvas_only)

lemma redraw_shape:
  "\<exists>cv pts tot fr.
     redrawCanvasContent st =
       st\<lparr>canvas := cv, processedPointsForCurrentChar := pts,
          totalFramesForCurrentChar := tot, currentFrame := fr\<rparr>"
proof -
  let ?st1 = "st\<lparr>canvas := []\<rparr>"
  obtain cv where st2: "drawCompletedCharacters ?st1 = st\<lparr>canvas := cv\<rparr>"
    using drawCompleted_canvas_only [of ?st1] by simp
  have id: "st\<lparr>canvas := cv\<rparr> =
      st\<lparr>canvas := cv, processedPointsForCurrentChar := processedPointsForCurrentChar st,
          totalFramesForCurrentChar := totalFramesForCurrentChar st,
          currentFrame := currentFrame st\<rparr>"
    by simp
  show ?thesis
  proof (cases "animationActive st \<and> currentWordCharIndex st < length (wordToAnimate st)")
    case False
    then have "redrawCanvasContent st = st\<lparr>canvas := cv\<rparr>"
      by (auto simp add: redrawCanvasContent_def Let_def st2)
    with id show ?thesis by metis
  next
    case True
    let ?c = "wordToAnimate st ! currentWordCharIndex st"
    let ?off = "real (currentWordCharIndex st) * CHAR_WIDTH_DATA_UNITS"
    obtain st3 where st3: "st3 =
        (if length (processedPointsForCurrentChar st) = 0
         then fst (prepareAnimationForCharacter CHARACTER_DRAWING_DATA ?c (st\<lparr>canvas := cv\<rparr>))
         else st\<lparr>canvas := cv\<rparr>)"
      by simp
    have shape3: "\<exists>pts tot fr. st3 = st\<lparr>canvas := cv, processedPointsForCurrentChar := pts,
          totalFramesForCurrentChar := tot, currentFrame := fr\<rparr>"
    proof (cases "length (processedPointsForCurrentChar st) = 0")
      case False
      with st3 id show ?thesis by metis
    next
      case empty: True
      show ?thesis
      proof (cases "CHARACTER_DRAWING_DATA ?c")
        case None
        then have "st3 = st\<lparr>canvas := cv, processedPointsForCurrentChar := [],
            totalFramesForCurrentChar := 0, currentFrame := currentFrame st\<rparr>"
          using st3 empty by (simp add: prepare_missing)
        then show ?thesis by blast
      next
        case (Some segs)
        then have "st3 = st\<lparr>canvas := cv, processedPointsForCurrentChar := flattenSegments segs [],
            totalFramesForCurrentChar := length (flattenSegments segs []), currentFrame := 0\<rparr>"
          using st3 empty by (simp add: prepare_found)
        then show ?thesis by blast
      qed
    qed
    then obtain pts tot fr where st3': "st3 = st\<lparr>canvas := cv, processedPointsForCurrentChar := pts,
          totalFramesForCurrentChar := tot, currentFrame := fr\<rparr>"
      by blast
    have "redrawCanvasContent st =
            drawPath (take (currentFrame st3 + 1) (processedPointsForCurrentChar st3)) ?off st3"
      using True by (simp add: redrawCanvasContent_def Let_def st2 st3)
    also have "\<dots> = st3\<lparr>canvas := canvas (drawPath (take (currentFrame st3 + 1) (processedPointsForCurrentChar st3)) ?off st3)\<rparr>"
      by (rule drawPath_canvas_only)
    finally have "\<exists>cv'. redrawCanvasContent st = st3\<lparr>canvas := cv'\<rparr>"
      by blast
    then obtain cv' where "redrawCanvasContent st = st3\<lparr>canvas := cv'\<rparr>"
      by blast
    then have "redrawCanvasContent st =
        st\<lparr>canvas := cv', processedPointsForCurrentChar := pts,
          totalFramesForCurrentChar := tot, currentFrame := fr\<rparr>"
      by (simp add: st3')
    then show ?thesis by blast
  qed
qed

lemma redraw_keeps [simp]:
  "wordToAnimate (redrawCanvasContent st) = wordToAnimate st"
  "currentWordCharIndex (redrawCanvasContent st) = currentWordCharIndex st"
  "animationActive (redrawCanvasContent st) = animationActive st"
  "completedCharacters (redrawCanvasContent st) = completedCharacters st"
  "animationFrameId (redrawCanvasContent st) = animationFrameId st"
  "lastTimestamp (redrawCanvasContent st) = lastTimestamp st"
  "pending (redrawCanvasContent st) = pending st"
  "nextHandle (redrawCanvasContent st) = nextHandle st"
  "clientWidth (redrawCanvasContent st) = clientWidth st"
  "clientHeight (redrawCanvasContent st) = clientHeight st"
  using redraw_shape [of st] by auto

lemma redraw_canvas_only:
  assumes "animationActive st \<longrightarrow> processedPointsForCurrentChar st \<noteq> []"
  shows "redrawCanvasContent st = st\<lparr>canvas := canvas (redrawCanvasContent st)\<rparr>"
proof -
  let ?st1 = "st\<lparr>canvas := []\<rparr>"
  obtain cv where st2: "drawCompletedCharacters ?st1 = st\<lparr>canvas := cv\<rparr>"
    using drawCompleted_canvas_only [of ?st1] by simp
  show ?thesis
  proof (cases "animationActive st \<and> currentWordCharIndex st < length (wordToAnimate st)")
    case False
    then show ?thesis
      by (auto simp add: redrawCanvasContent_def Let_def st2)
  next
    case True
    with assms have ne: "processedPointsForCurrentChar st \<noteq> []" by simp
    let ?off = "real (currentWordCharIndex st) * CHAR_WIDTH_DATA_UNITS"
    let ?pts = "take (currentFrame st + 1) (processedPointsForCurrentChar st)"
    have "redrawCanvasContent st = drawPath ?pts ?off (st\<lparr>canvas := cv\<rparr>)"
      using True ne by (simp add: redrawCanvasContent_def Let_def st2)
    also have "\<dots> = st\<lparr>canvas := canvas (drawPath ?pts ?off (st\<lparr>canvas := cv\<rparr>))\<rparr>"
      using drawPath_canvas_only [of ?pts ?off "st\<lparr>canvas := cv\<rparr>"] by simp
    finally show ?thesis by simp
  qed
qed

subsection \<open>One tick under the invariant\<close>

lemma compiled_entry:
  "CHARACTER_DRAWING_DATA c = Some segs \<Longrightarrow> compiled c = flattenSegments segs []"
  by (simp add: compiled_def)

lemma compiled_nonempty:
  assumes "CHARACTER_DRAWING_DATA c \<noteq> None"
  shows "21 \<le> length (compiled c)"
    and "compiled c \<noteq> []"
proof -
  from assms obtain segs where entry: "CHARACTER_DRAWING_DATA c = Some segs"
    by blast
  then have "segs \<noteq> []"
    by (rule table_entry_nonempty)
  then have "21 \<le> length (flattenSegments segs [])"
    using flattenSegments_first by blast
  then show "21 \<le> length (compiled c)"
    by (simp add: compiled_entry [OF entry])
  then show "compiled c \<noteq> []"
    by auto
qed

lemma prepare_supported:
  assumes "CHARACTER_DRAWING_DATA c \<noteq> None"
  shows "prepareAnimationForCharacter CHARACTER_DRAWING_DATA c st =
           (st\<lparr>processedPointsForCurrentChar := compiled c,
               totalFramesForCurrentChar := length (compiled c),
               currentFrame := 0\<rparr>, True)"
proof -
  from assms obtain segs where entry: "CHARACTER_DRAWING_DATA c = Some segs"
    by blast
  show ?thesis
    using prepare_found [of CHARACTER_DRAWING_DATA c segs st, OF entry]
    by (simp add: compiled_entry [OF entry])
qed

lemma completedUpTo_Suc:
  "completedUpTo word (Suc n) = completedUpTo word n @ [completedAt word n]"
  by (simp add: completedUpTo_def)

lemma completedUpTo_chars:
  "n \<le> length word \<Longrightarrow> map charOf (completedUpTo word n) = take n word"
  by (induction n) (simp_all add: completedUpTo_def completedAt_def take_Suc_conv_app_nth)

lemma animationInv_cong:
  assumes "wordToAnimate a = wordToAnimate b"
    and "currentWordCharIndex a = currentWordCharIndex b"
    and "processedPointsForCurrentChar a = processedPointsForCurrentChar b"
    and "totalFramesForCurrentChar a = totalFramesForCurrentChar b"
    and "currentFrame a = currentFrame b"
    and "animationActive a = animationActive b"
    and "completedCharacters a = completedCharacters b"
  shows "animationInv a = animationInv b"
  using assms by (simp add: animationInv_def)

lemma animationInv_active:
  assumes "animationInv st" "animationActive st"
  shows "currentWordCharIndex st < length (wordToAnimate st)"
    and "processedPointsForCurrentChar st = compiled (wordToAnimate st ! currentWordCharIndex st)"
    and "totalFramesForCurrentChar st = length (processedPointsForCurrentChar st)"
    and "currentFrame st < length (processedPointsForCurrentChar st)"
    and "completedCharacters st = completedUpTo (wordToAnimate st) (currentWordCharIndex st)"
    and "processedPointsForCurrentChar st \<noteq> []"
  using assms by (auto simp add: animationInv_def)

lemma animationInv_supported:
  "animationInv st \<Longrightarrow> k < length (wordToAnimate st) \<Longrightarrow>
   CHARACTER_DRAWING_DATA (wordToAnimate st ! k) \<noteq> None"
  by (simp add: animationInv_def)

text \<open>The three ways a tick can go, for a state that satisfies the invariant.\<close>

lemma advance_next_frame:
  assumes "animationInv st" "animationActive st"
    and "Suc (currentFrame st) < length (processedPointsForCurrentChar st)"
  shows "advanceFrame st = st\<lparr>currentFrame := currentFrame st + 1\<rparr>"
  using animationInv_active(1,3) [OF assms(1,2)] assms(3)
  by (simp add: advanceFrame_def)

lemma advance_next_char:
  assumes "animationInv st" "animationActive st"
    and "Suc (currentFrame st) = length (processedPointsForCurrentChar st)"
    and "Suc (currentWordCharIndex st) < length (wordToAnimate st)"
  shows "advanceFrame st =
           st\<lparr>completedCharacters := completedCharacters st @
                  [\<lparr>charOf = wordToAnimate st ! currentWordCharIndex st,
                    processedPoints = processedPointsForCurrentChar st,
                    xOffset = real (currentWordCharIndex st) * CHAR_WIDTH_DATA_UNITS\<rparr>],
               currentWordCharIndex := Suc (currentWordCharIndex st),
               currentFrame := 0,
               processedPointsForCurrentChar :=
                 compiled (wordToAnimate st ! Suc (currentWordCharIndex st)),
               totalFramesForCurrentChar :=
                 length (compiled (wordToAnimate st ! Suc (currentWordCharIndex st)))\<rparr>"
proof -
  have sup: "CHARACTER_DRAWING_DATA (wordToAnimate st ! Suc (currentWordCharIndex st)) \<noteq> None"
    using assms(1,4) by (rule animationInv_supported)
  show ?thesis
    using animationInv_active(1,3) [OF assms(1,2)] assms(3,4)
    by (simp add: advanceFrame_def Let_def prepare_supported [OF sup])
qed

lemma advance_finish:
  assumes "animationInv st" "animationActive st"
    and "Suc (currentFrame st) = length (processedPointsForCurrentChar st)"
    and "Suc (currentWordCharIndex st) = length (wordToAnimate st)"
  shows "advanceFrame st =
           st\<lparr>completedCharacters := completedCharacters st @
                  [\<lparr>charOf = wordToAnimate st ! currentWordCharIndex st,
                    processedPoints = processedPointsForCurrentChar st,
                    xOffset = real (currentWordCharIndex st) * CHAR_WIDTH_DATA_UNITS\<rparr>],
               currentWordCharIndex := Suc (currentWordCharIndex st),
               currentFrame := 0,
               processedPointsForCurrentChar := [],
               animationActive := False\<rparr>"
  using animationInv_active(1,3) [OF assms(1,2)] assms(3,4)
  by (simp add: advanceFrame_def Let_def)

lemma advance_cases [consumes 2, case_names frame char finish]:
  assumes "animationInv st" "animationActive st"
  obtains
    (frame) "Suc (currentFrame st) < length (processedPointsForCurrentChar st)"
  | (char) "Suc (currentFrame st) = length (processedPointsForCurrentChar st)"
      "Suc (currentWordCharIndex st) < length (wordToAnimate st)"
  | (finish) "Suc (currentFrame st) = length (processedPointsForCurrentChar st)"
      "Suc (currentWordCharIndex st) = length (wordToAnimate st)"
  using animationInv_active(1,4) [OF assms] by linarith

lemma advance_inv:
  assumes inv: "animationInv st" and act: "animationActive st"
  shows "animationInv (advanceFrame st)"
  using inv act
proof (cases rule: advance_cases)
  case frame
  then show ?thesis
    using inv act
    by (simp add: advance_next_frame [OF inv act frame] animationInv_def)
next
  case char
  have sup: "CHARACTER_DRAWING_DATA (wordToAnimate st ! Suc (currentWordCharIndex st)) \<noteq> None"
    using inv char(2) by (rule animationInv_supported)
  have rec: "\<lparr>charOf = wordToAnimate st ! currentWordCharIndex st,
              processedPoints = processedPointsForCurrentChar st,
              xOffset = real (currentWordCharIndex st) * CHAR_WIDTH_DATA_UNITS\<rparr> =
             completedAt (wordToAnimate st) (currentWordCharIndex st)"
    using animationInv_active(2) [OF inv act] by (simp add: completedAt_def)
  note step = advance_next_char [OF inv act char, unfolded rec]
  show ?thesis
    using inv act char(2) compiled_nonempty(2) [OF sup]
    by (simp add: step animationInv_def completedUpTo_Suc)
next
  case finish
  have rec: "\<lparr>charOf = wordToAnimate st ! currentWordCharIndex st,
              processedPoints = processedPointsForCurrentChar st,
              xOffset = real (currentWordCharIndex st) * CHAR_WIDTH_DATA_UNITS\<rparr> =
             completedAt (wordToAnimate st) (currentWordCharIndex st)"
    using animationInv_active(2) [OF inv act] by (simp add: completedAt_def)
  note step = advance_finish [OF inv act finish, unfolded rec]
  have all: "completedUpTo (wordToAnimate st) (length (wordToAnimate st)) =
      completedUpTo (wordToAnimate st) (currentWordCharIndex st) @
        [completedAt (wordToAnimate st) (currentWordCharIndex st)]"
    using completedUpTo_Suc [of "wordToAnimate st" "currentWordCharIndex st"] finish(2)
    by simp
  show ?thesis
    using inv act finish(2)
    by (simp add: step animationInv_def all)
qed

lemma advance_keeps [simp]:
  "wordToAnimate (advanceFrame st) = wordToAnimate st"
  "animationFrameId (advanceFrame st) = animationFrameId st"
  "lastTimestamp (advanceFrame st) = lastTimestamp st"
  "pending (advanceFrame st) = pending st"
  "nextHandle (advanceFrame st) = nextHandle st"
  "clientWidth (advanceFrame st) = clientWidth st"
  "clientHeight (advanceFrame st) = clientHeight st"
  by (simp_all add: advanceFrame_def Let_def prepareAnimationForCharacter_def
        split: option.split)

lemma redraw_inv:
  assumes "animationInv st"
  shows "animationInv (redrawCanvasContent st)"
proof -
  have "animationActive st \<longrightarrow> processedPointsForCurrentChar st \<noteq> []"
    using assms by (auto simp add: animationInv_def)
  then have "redrawCanvasContent st = st\<lparr>canvas := canvas (redrawCanvasContent st)\<rparr>"
    by (rule redraw_canvas_only)
  then have "animationInv (redrawCanvasContent st) =
             animationInv (st\<lparr>canvas := canvas (redrawCanvasContent st)\<rparr>)"
    by simp
  also have "\<dots> = animationInv st"
    by (rule animationInv_cong) simp_all
  finally show ?thesis using assms by simp
qed

subsection \<open>The invariants are kept by every callback\<close>

lemma calculate_keeps_animation [simp]:
  "wordToAnimate (calculateWordScalingAndOffset word st) = wordToAnimate st"
  "currentWordCharIndex (calculateWordScalingAndOffset word st) = currentWordCharIndex st"
  "processedPointsForCurrentChar (calculateWordScalingAndOffset word st) =
     processedPointsForCurrentChar st"
  "totalFramesForCurrentChar (calculateWordScalingAndOffset word st) = totalFramesForCurrentChar st"
  "currentFrame (calculateWordScalingAndOffset word st) = currentFrame st"
  "animationActive (calculateWordScalingAndOffset word st) = animationActive st"
  "completedCharacters (calculateWordScalingAndOffset word st) = completedCharacters st"
  "animationFrameId (calculateWordScalingAndOffset word st) = animationFrameId st"
  "lastTimestamp (calculateWordScalingAndOffset word st) = lastTimestamp st"
  "pending (calculateWordScalingAndOffset word st) = pending st"
  "nextHandle (calculateWordScalingAndOffset word st) = nextHandle st"
  "clientWidth (calculateWordScalingAndOffset word st) = clientWidth st"
  "clientHeight (calculateWordScalingAndOffset word st) = clientHeight st"
  "canvas (calculateWordScalingAndOffset word st) = canvas st"
  by (simp_all add: calculateWordScalingAndOffset_def Let_def)

lemma update_keeps_animation [simp]:
  "wordToAnimate (updateCanvasDimensions st) = wordToAnimate st"
  "currentWordCharIndex (updateCanvasDimensions st) = currentWordCharIndex st"
  "processedPointsForCurrentChar (updateCanvasDimensions st) = processedPointsForCurrentChar st"
  "totalFramesForCurrentChar (updateCanvasDimensions st) = totalFramesForCurrentChar st"
  "currentFrame (updateCanvasDimensions st) = currentFrame st"
  "animationActive (updateCanvasDimensions st) = animationActive st"
  "completedCharacters (updateCanvasDimensions st) = completedCharacters st"
  "animationFrameId (updateCanvasDimensions st) = animationFrameId st"
  "lastTimestamp (updateCanvasDimensions st) = lastTimestamp st"
  "clientWidth (updateCanvasDimensions st) = clientWidth st"
  "clientHeight (updateCanvasDimensions st) = clientHeight st"
  "pending (updateCanvasDimensions st) = pending st @ [(nextHandle st, CbRedraw)]"
  "nextHandle (updateCanvasDimensions st) = Suc (nextHandle st)"
  "canvas (updateCanvasDimensions st) = []"
  unfolding updateCanvasDimensions_def Let_def requestAnimationFrame_fields
  by simp_all

lemma animate_inactive:
  "\<not> animationActive st \<Longrightarrow> animate timestamp st = st\<lparr>animationFrameId := None\<rparr>"
  by (simp add: animate_def)

lemma animate_active:
  assumes "animationActive st"
  shows "animate timestamp st =
     (let st1 = (if timestamp - lastTimestamp st \<ge> ANIMATION_INTERVAL_MS
                 then ticked timestamp st else st)
      in if animationActive st1
         then st1\<lparr>pending := pending st1 @ [(nextHandle st1, CbAnimate)],
                  nextHandle := Suc (nextHandle st1),
                  animationFrameId := Some (nextHandle st1)\<rparr>
         else st1)"
  using assms
  by (simp add: animate_def ticked_def Let_def requestAnimationFrame_def)

lemma ticked_inv:
  assumes "animationInv st" "animationActive st"
  shows "animationInv (ticked timestamp st)"
proof -
  let ?st0 = "st\<lparr>lastTimestamp :=
             timestamp - js_rem (timestamp - lastTimestamp st) ANIMATION_INTERVAL_MS\<rparr>"
  have "animationInv ?st0 = animationInv st"
    by (rule animationInv_cong) simp_all
  with assms have "animationInv (redrawCanvasContent ?st0)"
    by (simp add: redraw_inv)
  moreover have "animationActive (redrawCanvasContent ?st0)"
    using assms by simp
  ultimately show ?thesis
    unfolding ticked_def by (rule advance_inv)
qed

lemma ticked_keeps [simp]:
  "wordToAnimate (ticked timestamp st) = wordToAnimate st"
  "animationFrameId (ticked timestamp st) = animationFrameId st"
  "pending (ticked timestamp st) = pending st"
  "nextHandle (ticked timestamp st) = nextHandle st"
  "clientWidth (ticked timestamp st) = clientWidth st"
  "clientHeight (ticked timestamp st) = clientHeight st"
  "lastTimestamp (ticked timestamp st) =
     timestamp - js_rem (timestamp - lastTimestamp st) ANIMATION_INTERVAL_MS"
  by (simp_all add: ticked_def)

lemma animate_inv:
  assumes "animationInv st"
  shows "animationInv (animate timestamp st)"
proof (cases "animationActive st")
  case False
  have "animationInv (st\<lparr>animationFrameId := None\<rparr>) = animationInv st"
    by (rule animationInv_cong) simp_all
  with False assms show ?thesis by (simp add: animate_inactive)
next
  case True
  define st1 where "st1 = (if timestamp - lastTimestamp st \<ge> ANIMATION_INTERVAL_MS
                 then ticked timestamp st else st)"
  have inv1: "animationInv st1"
    using assms True by (simp add: st1_def ticked_inv)
  have "animationInv (st1\<lparr>pending := pending st1 @ [(nextHandle st1, CbAnimate)],
                  nextHandle := Suc (nextHandle st1),
                  animationFrameId := Some (nextHandle st1)\<rparr>) = animationInv st1"
    by (rule animationInv_cong) simp_all
  with inv1 show ?thesis
    by (simp add: animate_active [OF True] Let_def st1_def [symmetric])
qed

lemma animate_keeps [simp]:
  "wordToAnimate (animate timestamp st) = wordToAnimate st"
  "clientWidth (animate timestamp st) = clientWidth st"
  "clientHeight (animate timestamp st) = clientHeight st"
  by (cases "animationActive st"; simp add: animate_inactive animate_active Let_def)+

lemma animate_pendingInv:
  assumes "pendingInv ((h, CbAnimate) # rest) st"
  shows "pendingInv rest (animate timestamp st)"
proof -
  from assms have id: "animationFrameId st = Some h"
    and pos: "0 < nextHandle st"
    and range: "\<forall>p \<in> set (rest @ pending st). 0 < fst p \<and> fst p < nextHandle st"
    and dist: "distinct (map fst (rest @ pending st))"
    by (simp_all add: pendingInv_def)
  from assms have fresh: "h \<notin> fst ` set (rest @ pending st)"
    by (auto simp add: pendingInv_def)
  have none: "(h', CbAnimate) \<notin> set (rest @ pending st)" for h'
  proof
    assume mem: "(h', CbAnimate) \<in> set (rest @ pending st)"
    from assms have "\<forall>k. (k, CbAnimate) \<in> set (((h, CbAnimate) # rest) @ pending st)
        \<longrightarrow> animationFrameId st = Some k"
      unfolding pendingInv_def by blast
    moreover from mem have "(h', CbAnimate) \<in> set (((h, CbAnimate) # rest) @ pending st)"
      by simp
    ultimately have "animationFrameId st = Some h'"
      by blast
    with id have "h' = h" by simp
    with mem fresh show False by force
  qed
  show ?thesis
  proof (cases "animationActive st")
    case False
    then show ?thesis
      using pos range dist none by (simp add: animate_inactive pendingInv_def)
  next
    case True
    define st1 where "st1 = (if timestamp - lastTimestamp st \<ge> ANIMATION_INTERVAL_MS
                 then ticked timestamp st else st)"
    have same: "pending st1 = pending st" "nextHandle st1 = nextHandle st"
      "animationFrameId st1 = animationFrameId st"
      by (simp_all add: st1_def)
    have new: "nextHandle st \<notin> fst ` set (rest @ pending st)"
      using range by force
    show ?thesis
    proof (cases "animationActive st1")
      case False
      then have "animate timestamp st = st1"
        by (simp add: animate_active [OF True] Let_def st1_def [symmetric])
      then show ?thesis
        using pos range dist none by (simp add: pendingInv_def same)
    next
      case active: True
      then have "animate timestamp st =
          st1\<lparr>pending := pending st1 @ [(nextHandle st1, CbAnimate)],
                  nextHandle := Suc (nextHandle st1),
                  animationFrameId := Some (nextHandle st1)\<rparr>"
        by (simp add: animate_active [OF True] Let_def st1_def [symmetric])
      then show ?thesis
        using pos range dist none new
        by (auto simp add: pendingInv_def same less_Suc_eq)
    qed
  qed
qed

lemma redraw_pendingInv:
  assumes "pendingInv ((h, CbRedraw) # rest) st"
  shows "pendingInv rest (redrawCanvasContent st)"
  using assms by (auto simp add: pendingInv_def)

lemma fold_callbacks_pendingInv:
  "pendingInv cbs st \<Longrightarrow> pendingInv [] (fold (runCallback timestamp) cbs st)"
proof (induction cbs arbitrary: st)
  case Nil
  then show ?case by simp
next
  case (Cons cb cbs)
  obtain h kind where cb: "cb = (h, kind)" by (cases cb)
  have "pendingInv cbs (runCallback timestamp cb st)"
  proof (cases kind)
    case CbAnimate
    with Cons.prems cb show ?thesis by (simp add: animate_pendingInv)
  next
    case CbRedraw
    with Cons.prems cb show ?thesis by (simp add: redraw_pendingInv)
  qed
  then show ?case
    using Cons.IH by simp
qed

lemma fold_callbacks_inv:
  "animationInv st \<Longrightarrow> animationInv (fold (runCallback timestamp) cbs st)"
proof (induction cbs arbitrary: st)
  case Nil
  then show ?case by simp
next
  case (Cons cb cbs)
  obtain h kind where cb: "cb = (h, kind)" by (cases cb)
  have "animationInv (runCallback timestamp cb st)"
    using Cons.prems cb by (cases kind) (simp_all add: animate_inv redraw_inv)
  then show ?case
    using Cons.IH by simp
qed

lemma fold_callbacks_word:
  "wordToAnimate (fold (runCallback timestamp) cbs st) = wordToAnimate st"
proof (induction cbs arbitrary: st)
  case Nil
  then show ?case by simp
next
  case (Cons cb cbs)
  obtain h kind where cb: "cb = (h, kind)" by (cases cb)
  have "wordToAnimate (runCallback timestamp cb st) = wordToAnimate st"
    using cb by (cases kind) simp_all
  then show ?case
    using Cons.IH by simp
qed

lemma frame_inv:
  "animationInv st \<Longrightarrow> animationInv (animationFrame timestamp st)"
proof -
  assume inv: "animationInv st"
  have "animationInv (st\<lparr>pending := []\<rparr>) = animationInv st"
    by (rule animationInv_cong) simp_all
  with inv show ?thesis
    unfolding animationFrame_def by (simp add: fold_callbacks_inv)
qed

lemma frame_pendingInv:
  "pendingInv [] st \<Longrightarrow> pendingInv [] (animationFrame timestamp st)"
proof -
  assume "pendingInv [] st"
  then have "pendingInv (pending st) (st\<lparr>pending := []\<rparr>)"
    by (simp add: pendingInv_def)
  then show ?thesis
    unfolding animationFrame_def by (rule fold_callbacks_pendingInv)
qed

lemma frame_word:
  "wordToAnimate (animationFrame timestamp st) = wordToAnimate st"
  unfolding animationFrame_def by (simp add: fold_callbacks_word)

lemma resize_inv:
  "animationInv st \<Longrightarrow> animationInv (windowResize w h st)"
proof -
  assume inv: "animationInv st"
  have "animationInv (windowResize w h st) = animationInv st"
    unfolding windowResize_def by (rule animationInv_cong) simp_all
  with inv show ?thesis by simp
qed

lemma update_pendingInv:
  "pendingInv [] st \<Longrightarrow> pendingInv [] (updateCanvasDimensions st)"
  by (auto simp add: pendingInv_def less_Suc_eq)

lemma resize_pendingInv:
  "pendingInv [] st \<Longrightarrow> pendingInv [] (windowResize w h st)"
proof -
  assume "pendingInv [] st"
  then have "pendingInv [] (st\<lparr>clientWidth := w, clientHeight := h\<rparr>)"
    by (simp add: pendingInv_def)
  then show ?thesis
    unfolding windowResize_def by (rule update_pendingInv)
qed

lemma resize_word:
  "wordToAnimate (windowResize w h st) = wordToAnimate st"
  by (simp add: windowResize_def)

subsection \<open>The click handler\<close>

lemma stop_fields:
  "stopOngoingAnimation st =
     st\<lparr>pending := pending (stopOngoingAnimation st), animationActive := False\<rparr>"
  by (simp add: stopOngoingAnimation_def Let_def cancelAnimationFrame_def split: option.split)

lemma stop_pending:
  "pending (stopOngoingAnimation st) =
     (case animationFrameId st of
        None \<Rightarrow> pending st
      | Some h \<Rightarrow> if h \<noteq> 0 then filter (\<lambda>p. fst p \<noteq> h) (pending st) else pending st)"
  by (simp add: stopOngoingAnimation_def Let_def cancelAnimationFrame_def split: option.split)

lemma stop_keeps [simp]:
  "wordToAnimate (stopOngoingAnimation st) = wordToAnimate st"
  "currentWordCharIndex (stopOngoingAnimation st) = currentWordCharIndex st"
  "processedPointsForCurrentChar (stopOngoingAnimation st) = processedPointsForCurrentChar st"
  "totalFramesForCurrentChar (stopOngoingAnimation st) = totalFramesForCurrentChar st"
  "currentFrame (stopOngoingAnimation st) = currentFrame st"
  "animationActive (stopOngoingAnimation st) = False"
  "completedCharacters (stopOngoingAnimation st) = completedCharacters st"
  "animationFrameId (stopOngoingAnimation st) = animationFrameId st"
  "lastTimestamp (stopOngoingAnimation st) = lastTimestamp st"
  "nextHandle (stopOngoingAnimation st) = nextHandle st"
  "clientWidth (stopOngoingAnimation st) = clientWidth st"
  "clientHeight (stopOngoingAnimation st) = clientHeight st"
  by (subst stop_fields, simp)+

lemma stop_no_animate:
  assumes "pendingInv [] st"
  shows "(h, CbAnimate) \<notin> set (pending (stopOngoingAnimation st))"
proof
  assume mem: "(h, CbAnimate) \<in> set (pending (stopOngoingAnimation st))"
  then have old: "(h, CbAnimate) \<in> set (pending st)"
    by (auto simp add: stop_pending split: option.splits if_splits)
  with assms have "animationFrameId st = Some h" and "0 < h"
    by (auto simp add: pendingInv_def)
  with mem show False
    by (simp add: stop_pending)
qed

lemma stop_subset:
  "set (pending (stopOngoingAnimation st)) \<subseteq> set (pending st)"
  by (auto simp add: stop_pending split: option.splits if_splits)

lemma stop_distinct:
  "distinct (map fst (pending st)) \<Longrightarrow> distinct (map fst (pending (stopOngoingAnimation st)))"
  by (auto simp add: stop_pending distinct_map_filter split: option.splits)

lemma stop_pendingInv:
  assumes "pendingInv [] st"
  shows "pendingInv [] (stopOngoingAnimation st)"
  using assms stop_subset [of st] stop_distinct [of st] stop_no_animate [OF assms]
  by (auto simp add: pendingInv_def)

text \<open>The handler, by the word that the text leaves.\<close>

lemma click_word:
  "animateButtonClick textInputValue now st =
     (let st2 = stopOngoingAnimation (st\<lparr>wordToAnimate := supportedWord textInputValue\<rparr>)
      in if supportedWord textInputValue = []
         then st2\<lparr>canvas := [], completedCharacters := [], wordScaleFactor := 1,
                  centerXOffsetPixels := 0, centerYOffsetPixels := 0\<rparr>
         else startWordAnimation now st2)"
  by (simp add: animateButtonClick_def supportedWord_def Let_def)

lemma supportedWord_supported:
  "c \<in> set (supportedWord textInputValue) \<Longrightarrow> CHARACTER_DRAWING_DATA c \<noteq> None"
  by (simp add: supportedWord_def)

lemma start_supported:
  assumes "wordToAnimate st \<noteq> []"
    and "CHARACTER_DRAWING_DATA (wordToAnimate st ! 0) \<noteq> None"
  shows "wordToAnimate (startWordAnimation now st) = wordToAnimate st"
    and "currentWordCharIndex (startWordAnimation now st) = 0"
    and "currentFrame (startWordAnimation now st) = 0"
    and "processedPointsForCurrentChar (startWordAnimation now st) = compiled (wordToAnimate st ! 0)"
    and "totalFramesForCurrentChar (startWordAnimation now st) =
           length (compiled (wordToAnimate st ! 0))"
    and "completedCharacters (startWordAnimation now st) = []"
    and "animationActive (startWordAnimation now st)"
    and "lastTimestamp (startWordAnimation now st) = now"
    and "animationFrameId (startWordAnimation now st) = Some (Suc (nextHandle st))"
    and "pending (startWordAnimation now st) =
           pending st @ [(nextHandle st, CbRedraw), (Suc (nextHandle st), CbAnimate)]"
    and "nextHandle (startWordAnimation now st) = Suc (Suc (nextHandle st))"
    and "canvas (startWordAnimation now st) = []"
    and "clientWidth (startWordAnimation now st) = clientWidth st"
    and "clientHeight (startWordAnimation now st) = clientHeight st"
  using assms(2)
  by (simp_all add: startWordAnimation_def Let_def prepare_supported
        requestAnimationFrame_def)

subsection \<open>The invariants hold in every reachable state\<close>

lemma click_started:
  assumes "supportedWord textInputValue \<noteq> []"
  shows "wordToAnimate (animateButtonClick textInputValue now st) = supportedWord textInputValue"
    and "currentWordCharIndex (animateButtonClick textInputValue now st) = 0"
    and "currentFrame (animateButtonClick textInputValue now st) = 0"
    and "processedPointsForCurrentChar (animateButtonClick textInputValue now st) =
           compiled (supportedWord textInputValue ! 0)"
    and "totalFramesForCurrentChar (animateButtonClick textInputValue now st) =
           length (compiled (supportedWord textInputValue ! 0))"
    and "completedCharacters (animateButtonClick textInputValue now st) = []"
    and "animationActive (animateButtonClick textInputValue now st)"
    and "lastTimestamp (animateButtonClick textInputValue now st) = now"
    and "animationFrameId (animateButtonClick textInputValue now st) = Some (Suc (nextHandle st))"
    and "pending (animateButtonClick textInputValue now st) =
           pending (stopOngoingAnimation (st\<lparr>wordToAnimate := supportedWord textInputValue\<rparr>))
             @ [(nextHandle st, CbRedraw), (Suc (nextHandle st), CbAnimate)]"
    and "nextHandle (animateButtonClick textInputValue now st) = Suc (Suc (nextHandle st))"
proof -
  let ?st2 = "stopOngoingAnimation (st\<lparr>wordToAnimate := supportedWord textInputValue\<rparr>)"
  have word: "wordToAnimate ?st2 = supportedWord textInputValue"
    by simp
  have ne: "wordToAnimate ?st2 \<noteq> []"
    using assms by simp
  have "supportedWord textInputValue ! 0 \<in> set (supportedWord textInputValue)"
    using assms by simp
  then have sup: "CHARACTER_DRAWING_DATA (wordToAnimate ?st2 ! 0) \<noteq> None"
    unfolding word by (rule supportedWord_supported)
  have click: "animateButtonClick textInputValue now st = startWordAnimation now ?st2"
    using assms by (simp add: click_word Let_def)
  note started = start_supported [OF ne sup, of now, folded click]
  show "wordToAnimate (animateButtonClick textInputValue now st) = supportedWord textInputValue"
    using started(1) by simp
  show "currentWordCharIndex (animateButtonClick textInputValue now st) = 0"
    by (rule started(2))
  show "currentFrame (animateButtonClick textInputValue now st) = 0"
    by (rule started(3))
  show "processedPointsForCurrentChar (animateButtonClick textInputValue now st) =
           compiled (supportedWord textInputValue ! 0)"
    using started(4) by simp
  show "totalFramesForCurrentChar (animateButtonClick textInputValue now st) =
           length (compiled (supportedWord textInputValue ! 0))"
    using started(5) by simp
  show "completedCharacters (animateButtonClick textInputValue now st) = []"
    by (rule started(6))
  show "animationActive (animateButtonClick textInputValue now st)"
    by (rule started(7))
  show "lastTimestamp (animateButtonClick textInputValue now st) = now"
    by (rule started(8))
  show "animationFrameId (animateButtonClick textInputValue now st) = Some (Suc (nextHandle st))"
    using started(9) by simp
  show "pending (animateButtonClick textInputValue now st) =
           pending ?st2
             @ [(nextHandle st, CbRedraw), (Suc (nextHandle st), CbAnimate)]"
    using started(10) by simp
  show "nextHandle (animateButtonClick textInputValue now st) = Suc (Suc (nextHandle st))"
    using started(11) by simp
qed

lemma click_inv: "animationInv (animateButtonClick textInputValue now st)"
proof (cases "supportedWord textInputValue = []")
  case True
  then show ?thesis
    by (simp add: click_word Let_def animationInv_def)
next
  case False
  then have first: "supportedWord textInputValue ! 0 \<in> set (supportedWord textInputValue)"
    by simp
  have "compiled (supportedWord textInputValue ! 0) \<noteq> []"
    using supportedWord_supported [OF first] by (rule compiled_nonempty(2))
  then show ?thesis
    using False supportedWord_supported
    by (simp add: animationInv_def click_started [OF False] completedUpTo_def)
qed

lemma click_pendingInv:
  assumes "pendingInv [] st"
  shows "pendingInv [] (animateButtonClick textInputValue now st)"
proof -
  let ?st1 = "st\<lparr>wordToAnimate := supportedWord textInputValue\<rparr>"
  let ?st2 = "stopOngoingAnimation ?st1"
  from assms have inv1: "pendingInv [] ?st1"
    by (simp add: pendingInv_def)
  then have inv2: "pendingInv [] ?st2"
    by (rule stop_pendingInv)
  show ?thesis
  proof (cases "supportedWord textInputValue = []")
    case True
    with inv2 show ?thesis
      by (simp add: click_word Let_def pendingInv_def)
  next
    case False
    have none: "(h, CbAnimate) \<notin> set (pending ?st2)" for h
      using inv1 by (rule stop_no_animate)
    have range: "\<forall>p \<in> set (pending ?st2). 0 < fst p \<and> fst p < nextHandle st"
      using inv2 by (simp add: pendingInv_def)
    then have fresh: "nextHandle st \<notin> fst ` set (pending ?st2)"
      "Suc (nextHandle st) \<notin> fst ` set (pending ?st2)"
      by force+
    have "0 < nextHandle st" "distinct (map fst (pending ?st2))"
      using inv2 by (simp_all add: pendingInv_def)
    then show ?thesis
      using none range fresh
      by (auto simp add: pendingInv_def click_started [OF False] less_Suc_eq)
  qed
qed

lemma initial_inv:
  "animationInv (initialWorld w h)"
  "pendingInv [] (initialWorld w h)"
  by (simp_all add: animationInv_def pendingInv_def initialWorld_def)

lemma onload_inv:
  "animationInv st \<Longrightarrow> animationInv (windowOnload st)"
  "pendingInv [] st \<Longrightarrow> pendingInv [] (windowOnload st)"
proof -
  have "animationInv (windowOnload st) = animationInv st"
    unfolding windowOnload_def by (rule animationInv_cong) simp_all
  then show "animationInv st \<Longrightarrow> animationInv (windowOnload st)"
    by simp
  show "pendingInv [] st \<Longrightarrow> pendingInv [] (windowOnload st)"
    unfolding windowOnload_def by (rule update_pendingInv)
qed

lemma step_inv:
  assumes "animationInv st" "pendingInv [] st"
  shows "animationInv (step e st)" and "pendingInv [] (step e st)"
  using assms
  by (cases e; simp add: click_inv click_pendingInv frame_inv frame_pendingInv
        resize_inv resize_pendingInv onload_inv)+

lemma reachable_inv:
  "reachable st \<Longrightarrow> animationInv st \<and> pendingInv [] st"
  by (induction rule: reachable.induct) (simp_all add: initial_inv step_inv)

lemma reachable_loaded: "reachable (windowOnload (initialWorld w h))"
  using reachable.event [OF reachable.started, of Load w h] by simp

subsection \<open>The effect of a tick\<close>

lemma ticked_advance:
  assumes inv: "animationInv st" and act: "animationActive st"
  obtains st0 where "ticked timestamp st = advanceFrame st0"
    and "animationInv st0" and "animationActive st0"
    and "wordToAnimate st0 = wordToAnimate st"
    and "currentWordCharIndex st0 = currentWordCharIndex st"
    and "processedPointsForCurrentChar st0 = processedPointsForCurrentChar st"
    and "currentFrame st0 = currentFrame st"
    and "completedCharacters st0 = completedCharacters st"
proof -
  let ?st' = "st\<lparr>lastTimestamp :=
             timestamp - js_rem (timestamp - lastTimestamp st) ANIMATION_INTERVAL_MS\<rparr>"
  have inv': "animationInv ?st' = animationInv st"
    by (rule animationInv_cong) simp_all
  have "animationActive ?st' \<longrightarrow> processedPointsForCurrentChar ?st' \<noteq> []"
    using animationInv_active(6) [OF inv act] by simp
  then have shape: "redrawCanvasContent ?st' = ?st'\<lparr>canvas := canvas (redrawCanvasContent ?st')\<rparr>"
    by (rule redraw_canvas_only)
  show ?thesis
  proof (rule that [of "redrawCanvasContent ?st'"])
    show "ticked timestamp st = advanceFrame (redrawCanvasContent ?st')"
      by (simp add: ticked_def)
    show "animationInv (redrawCanvasContent ?st')"
      using inv inv' by (simp add: redraw_inv)
    show "animationActive (redrawCanvasContent ?st')"
      using act by simp
    show "wordToAnimate (redrawCanvasContent ?st') = wordToAnimate st"
      by simp
    show "currentWordCharIndex (redrawCanvasContent ?st') = currentWordCharIndex st"
      by simp
    show "processedPointsForCurrentChar (redrawCanvasContent ?st') = processedPointsForCurrentChar st"
      by (subst shape) simp
    show "currentFrame (redrawCanvasContent ?st') = currentFrame st"
      by (subst shape) simp
    show "completedCharacters (redrawCanvasContent ?st') = completedCharacters st"
      by simp
  qed
qed

text \<open>
  What a tick does to the animation variables, for a state that satisfies the
  invariant: the three cases of \<open>advanceFrame\<close>.
\<close>

lemma ticked_next_frame:
  assumes "animationInv st" "animationActive st"
    and "Suc (currentFrame st) < length (processedPointsForCurrentChar st)"
  shows "currentFrame (ticked timestamp st) = currentFrame st + 1"
    and "currentWordCharIndex (ticked timestamp st) = currentWordCharIndex st"
    and "completedCharacters (ticked timestamp st) = completedCharacters st"
    and "processedPointsForCurrentChar (ticked timestamp st) = processedPointsForCurrentChar st"
    and "animationActive (ticked timestamp st)"
proof -
  obtain st0 where t: "ticked timestamp st = advanceFrame st0"
    and i: "animationInv st0" and a: "animationActive st0"
    and eqs: "wordToAnimate st0 = wordToAnimate st"
      "currentWordCharIndex st0 = currentWordCharIndex st"
      "processedPointsForCurrentChar st0 = processedPointsForCurrentChar st"
      "currentFrame st0 = currentFrame st"
      "completedCharacters st0 = completedCharacters st"
    using ticked_advance [OF assms(1,2)] by metis
  have "Suc (currentFrame st0) < length (processedPointsForCurrentChar st0)"
    using assms(3) eqs by simp
  note step = advance_next_frame [OF i a this]
  show "currentFrame (ticked timestamp st) = currentFrame st + 1"
    and "currentWordCharIndex (ticked timestamp st) = currentWordCharIndex st"
    and "completedCharacters (ticked timestamp st) = completedCharacters st"
    and "processedPointsForCurrentChar (ticked timestamp st) = processedPointsForCurrentChar st"
    and "animationActive (ticked timestamp st)"
    using a eqs by (simp_all add: t step)
qed

lemma ticked_next_char:
  assumes "animationInv st" "animationActive st"
    and "Suc (currentFrame st) = length (processedPointsForCurrentChar st)"
    and "Suc (currentWordCharIndex st) < length (wordToAnimate st)"
  shows "currentFrame (ticked timestamp st) = 0"
    and "currentWordCharIndex (ticked timestamp st) = Suc (currentWordCharIndex st)"
    and "completedCharacters (ticked timestamp st) =
           completedCharacters st @
             [\<lparr>charOf = wordToAnimate st ! currentWordCharIndex st,
               processedPoints = processedPointsForCurrentChar st,
               xOffset = real (currentWordCharIndex st) * CHAR_WIDTH_DATA_UNITS\<rparr>]"
    and "processedPointsForCurrentChar (ticked timestamp st) =
           compiled (wordToAnimate st ! Suc (currentWordCharIndex st))"
    and "animationActive (ticked timestamp st)"
proof -
  obtain st0 where t: "ticked timestamp st = advanceFrame st0"
    and i: "animationInv st0" and a: "animationActive st0"
    and eqs: "wordToAnimate st0 = wordToAnimate st"
      "currentWordCharIndex st0 = currentWordCharIndex st"
      "processedPointsForCurrentChar st0 = processedPointsForCurrentChar st"
      "currentFrame st0 = currentFrame st"
      "completedCharacters st0 = completedCharacters st"
    using ticked_advance [OF assms(1,2)] by metis
  have "Suc (currentFrame st0) = length (processedPointsForCurrentChar st0)"
    and "Suc (currentWordCharIndex st0) < length (wordToAnimate st0)"
    using assms(3,4) eqs by simp_all
  note step = advance_next_char [OF i a this]
  show "currentFrame (ticked timestamp st) = 0"
    and "currentWordCharIndex (ticked timestamp st) = Suc (currentWordCharIndex st)"
    and "completedCharacters (ticked timestamp st) =
           completedCharacters st @
             [\<lparr>charOf = wordToAnimate st ! currentWordCharIndex st,
               processedPoints = processedPointsForCurrentChar st,
               xOffset = real (currentWordCharIndex st) * CHAR_WIDTH_DATA_UNITS\<rparr>]"
    and "processedPointsForCurrentChar (ticked timestamp st) =
           compiled (wordToAnimate st ! Suc (currentWordCharIndex st))"
    and "animationActive (ticked timestamp st)"
    using a eqs by (simp_all add: t step)
qed

lemma ticked_finish:
  assumes "animationInv st" "animationActive st"
    and "Suc (currentFrame st) = length (processedPointsForCurrentChar st)"
    and "Suc (currentWordCharIndex st) = length (wordToAnimate st)"
  shows "currentFrame (ticked timestamp st) = 0"
    and "currentWordCharIndex (ticked timestamp st) = Suc (currentWordCharIndex st)"
    and "completedCharacters (ticked timestamp st) =
           completedCharacters st @
             [\<lparr>charOf = wordToAnimate st ! currentWordCharIndex st,
               processedPoints = processedPointsForCurrentChar st,
               xOffset = real (currentWordCharIndex st) * CHAR_WIDTH_DATA_UNITS\<rparr>]"
    and "\<not> animationActive (ticked timestamp st)"
proof -
  obtain st0 where t: "ticked timestamp st = advanceFrame st0"
    and i: "animationInv st0" and a: "animationActive st0"
    and eqs: "wordToAnimate st0 = wordToAnimate st"
      "currentWordCharIndex st0 = currentWordCharIndex st"
      "processedPointsForCurrentChar st0 = processedPointsForCurrentChar st"
      "currentFrame st0 = currentFrame st"
      "completedCharacters st0 = completedCharacters st"
    using ticked_advance [OF assms(1,2)] by metis
  have "Suc (currentFrame st0) = length (processedPointsForCurrentChar st0)"
    and "Suc (currentWordCharIndex st0) = length (wordToAnimate st0)"
    using assms(3,4) eqs by simp_all
  note step = advance_finish [OF i a this]
  show "currentFrame (ticked timestamp st) = 0"
    and "currentWordCharIndex (ticked timestamp st) = Suc (currentWordCharIndex st)"
    and "completedCharacters (ticked timestamp st) =
           completedCharacters st @
             [\<lparr>charOf = wordToAnimate st ! currentWordCharIndex st,
               processedPoints = processedPointsForCurrentChar st,
               xOffset = real (currentWordCharIndex st) * CHAR_WIDTH_DATA_UNITS\<rparr>]"
    and "\<not> animationActive (ticked timestamp st)"
    using a eqs by (simp_all add: t step)
qed

text \<open>A due call of \<open>animate\<close> leaves the animation variables as the tick set them.\<close>

lemma animate_due:
  assumes "animationActive st" "timestamp - lastTimestamp st \<ge> ANIMATION_INTERVAL_MS"
  shows "currentFrame (animate timestamp st) = currentFrame (ticked timestamp st)"
    and "currentWordCharIndex (animate timestamp st) = currentWordCharIndex (ticked timestamp st)"
    and "completedCharacters (animate timestamp st) = completedCharacters (ticked timestamp st)"
    and "processedPointsForCurrentChar (animate timestamp st) =
           processedPointsForCurrentChar (ticked timestamp st)"
    and "totalFramesForCurrentChar (animate timestamp st) =
           totalFramesForCurrentChar (ticked timestamp st)"
    and "animationActive (animate timestamp st) = animationActive (ticked timestamp st)"
    and "lastTimestamp (animate timestamp st) = lastTimestamp (ticked timestamp st)"
  using assms by (simp_all add: animate_active Let_def)

subsection \<open>The animation state machine\<close>

lemma glyph_J_points: "length (compiled (CHR ''J'')) = 208"
proof -
  have entry: "CHARACTER_DRAWING_DATA (CHR ''J'') = Some glyph_J"
    by (simp add: CHARACTER_DRAWING_DATA_def)
  have "coincidingJoins glyph_J = 2"
    by (simp add: coincidingJoins_def glyph_J_def literals_def fl_table upt_conv_Cons)
  moreover have "length glyph_J = 10"
    by (simp add: glyph_J_def literals_def)
  ultimately show ?thesis
    using flattenSegments_length [OF glyph_J_exactJoins]
    by (simp add: compiled_entry [OF entry])
qed

lemma upper_words:
  "toUpperCase (trim ''j'') = ''J''" "toUpperCase (trim ''a'') = ''A''"
  "toUpperCase (trim ''b'') = ''B''" "toUpperCase (trim ''ab12'') = ''AB12''"
  by code_simp+

lemma supportedWord_j: "supportedWord ''j'' = ''J''"
  by (simp add: supportedWord_def upper_words CHARACTER_DRAWING_DATA_def)

lemma supportedWord_ab12: "supportedWord ''ab12'' = ''AB''"
  by (simp add: supportedWord_def upper_words CHARACTER_DRAWING_DATA_def)

lemma reachable_run: "reachable st \<Longrightarrow> reachable (run events st)"
  unfolding run_def
  by (induction events arbitrary: st) (simp_all add: reachable.event)

text \<open>
  C3. In every reachable state the cursor of an active glyph is an index into
  its point sequence, and the completed set lists the characters of the word
  before the current one, in the order of the word. On a tick of an active
  animation: at the last index the record of the glyph is appended to the
  completed set and the controller moves to the next character with cursor 0,
  or becomes inactive when none remains; at any other index the cursor goes up
  by one and nothing else changes.
\<close>

theorem animate_tick:
  assumes "reachable st"
  shows "(animationActive st \<longrightarrow>
            currentWordCharIndex st < length (wordToAnimate st)
            \<and> currentFrame st < length (processedPointsForCurrentChar st))
       \<and> map charOf (completedCharacters st) =
           take (currentWordCharIndex st) (wordToAnimate st)
       \<and> (\<forall>timestamp.
            animationActive st \<and> timestamp - lastTimestamp st \<ge> ANIMATION_INTERVAL_MS \<longrightarrow>
            (let st' = animate timestamp st
             in if currentFrame st = length (processedPointsForCurrentChar st) - 1
                then completedCharacters st' =
                       completedCharacters st @
                         [\<lparr>charOf = wordToAnimate st ! currentWordCharIndex st,
                           processedPoints = processedPointsForCurrentChar st,
                           xOffset = real (currentWordCharIndex st) * CHAR_WIDTH_DATA_UNITS\<rparr>]
                     \<and> currentWordCharIndex st' = currentWordCharIndex st + 1
                     \<and> currentFrame st' = 0
                     \<and> (if currentWordCharIndex st + 1 < length (wordToAnimate st)
                         then animationActive st'
                              \<and> processedPointsForCurrentChar st' =
                                  compiled (wordToAnimate st ! (currentWordCharIndex st + 1))
                         else \<not> animationActive st')
                else currentFrame st' = currentFrame st + 1
                     \<and> currentWordCharIndex st' = currentWordCharIndex st
                     \<and> completedCharacters st' = completedCharacters st
                     \<and> processedPointsForCurrentChar st' = processedPointsForCurrentChar st
                     \<and> animationActive st'))"
proof -
  from assms have inv: "animationInv st"
    using reachable_inv by blast
  have range: "currentWordCharIndex st < length (wordToAnimate st)
            \<and> currentFrame st < length (processedPointsForCurrentChar st)"
    if "animationActive st"
    using animationInv_active(1,4) [OF inv that] by simp
  have order: "map charOf (completedCharacters st) =
           take (currentWordCharIndex st) (wordToAnimate st)"
  proof (cases "wordToAnimate st = []")
    case True
    with inv show ?thesis by (simp add: animationInv_def)
  next
    case False
    with inv have "currentWordCharIndex st \<le> length (wordToAnimate st)"
      and "completedCharacters st = completedUpTo (wordToAnimate st) (currentWordCharIndex st)"
      by (simp_all add: animationInv_def)
    then show ?thesis by (simp add: completedUpTo_chars)
  qed
  have tick: "(let st' = animate timestamp st
             in if currentFrame st = length (processedPointsForCurrentChar st) - 1
                then completedCharacters st' =
                       completedCharacters st @
                         [\<lparr>charOf = wordToAnimate st ! currentWordCharIndex st,
                           processedPoints = processedPointsForCurrentChar st,
                           xOffset = real (currentWordCharIndex st) * CHAR_WIDTH_DATA_UNITS\<rparr>]
                     \<and> currentWordCharIndex st' = currentWordCharIndex st + 1
                     \<and> currentFrame st' = 0
                     \<and> (if currentWordCharIndex st + 1 < length (wordToAnimate st)
                         then animationActive st'
                              \<and> processedPointsForCurrentChar st' =
                                  compiled (wordToAnimate st ! (currentWordCharIndex st + 1))
                         else \<not> animationActive st')
                else currentFrame st' = currentFrame st + 1
                     \<and> currentWordCharIndex st' = currentWordCharIndex st
                     \<and> completedCharacters st' = completedCharacters st
                     \<and> processedPointsForCurrentChar st' = processedPointsForCurrentChar st
                     \<and> animationActive st')"
    if act: "animationActive st" and due: "timestamp - lastTimestamp st \<ge> ANIMATION_INTERVAL_MS"
    for timestamp
    using inv act
  proof (cases rule: advance_cases)
    case frame
    then have "currentFrame st \<noteq> length (processedPointsForCurrentChar st) - 1"
      by simp
    then show ?thesis
      by (simp add: Let_def animate_due [OF act due] ticked_next_frame [OF inv act frame])
  next
    case char
    then have "currentFrame st = length (processedPointsForCurrentChar st) - 1"
      by simp
    then show ?thesis
      using char(2)
      by (simp add: Let_def animate_due [OF act due] ticked_next_char [OF inv act char])
  next
    case finish
    then have "currentFrame st = length (processedPointsForCurrentChar st) - 1"
      by simp
    then show ?thesis
      using finish(2)
      by (simp add: Let_def animate_due [OF act due] ticked_finish [OF inv act finish])
  qed
  from range order tick show ?thesis
    by blast
qed

text \<open>The state after the page has loaded and the word j was submitted.\<close>

theorem animate_tick_witness:
  "reachable (animateButtonClick ''j'' 0 (windowOnload (initialWorld 800 600)))
   \<and> animationActive (animateButtonClick ''j'' 0 (windowOnload (initialWorld 800 600)))
   \<and> currentFrame (animateButtonClick ''j'' 0 (windowOnload (initialWorld 800 600))) = 0
   \<and> length (processedPointsForCurrentChar
        (animateButtonClick ''j'' 0 (windowOnload (initialWorld 800 600)))) = 208
   \<and> currentFrame
        (animate 10 (animateButtonClick ''j'' 0 (windowOnload (initialWorld 800 600)))) = 1"
proof -
  let ?st = "animateButtonClick ''j'' 0 (windowOnload (initialWorld 800 600))"
  have ne: "supportedWord ''j'' \<noteq> []"
    by (simp add: supportedWord_j)
  have r: "reachable ?st"
    using reachable.event [OF reachable_loaded, of "Click ''j'' 0" 800 600] by simp
  have act: "animationActive ?st" and frame: "currentFrame ?st = 0"
    and last: "lastTimestamp ?st = 0"
    and pts: "processedPointsForCurrentChar ?st = compiled (CHR ''J'')"
    using click_started [OF ne, of 0 "windowOnload (initialWorld 800 600)"]
    by (simp_all add: supportedWord_j)
  have due: "10 - lastTimestamp ?st \<ge> ANIMATION_INTERVAL_MS"
    by (simp add: last ANIMATION_INTERVAL_MS_def)
  from animate_tick [OF r] act due
  have "(let st' = animate 10 ?st
         in if currentFrame ?st = length (processedPointsForCurrentChar ?st) - 1
            then completedCharacters st' =
                   completedCharacters ?st @
                     [\<lparr>charOf = wordToAnimate ?st ! currentWordCharIndex ?st,
                       processedPoints = processedPointsForCurrentChar ?st,
                       xOffset = real (currentWordCharIndex ?st) * CHAR_WIDTH_DATA_UNITS\<rparr>]
                 \<and> currentWordCharIndex st' = currentWordCharIndex ?st + 1
                 \<and> currentFrame st' = 0
                 \<and> (if currentWordCharIndex ?st + 1 < length (wordToAnimate ?st)
                     then animationActive st'
                          \<and> processedPointsForCurrentChar st' =
                              compiled (wordToAnimate ?st ! (currentWordCharIndex ?st + 1))
                     else \<not> animationActive st')
            else currentFrame st' = currentFrame ?st + 1
                 \<and> currentWordCharIndex st' = currentWordCharIndex ?st
                 \<and> completedCharacters st' = completedCharacters ?st
                 \<and> processedPointsForCurrentChar st' = processedPointsForCurrentChar ?st
                 \<and> animationActive st')"
    by blast
  then have "currentFrame (animate 10 ?st) = 1"
    by (simp add: Let_def frame pts glyph_J_points)
  with r act frame pts show ?thesis
    by (simp add: glyph_J_points)
qed

subsection \<open>Submitting a word during an animation: the later version\<close>

text \<open>
  The later version. When a text with at least one supported character is
  submitted in a reachable state, every \<open>animate\<close> callback that was pending
  is cancelled: the only one pending afterwards is the one the handler has just
  requested, and in every later state a pending \<open>animate\<close> is the one whose
  handle the script holds. The progress of the word in flight is discarded: the
  state of the animation is that of the new word at character 0 and cursor 0,
  with an empty completed set.
\<close>

theorem click_cancels_pending_tick:
  assumes "reachable st" and "supportedWord textInputValue \<noteq> []"
  shows "(let st' = animateButtonClick textInputValue now st
          in (\<forall>h. (h, CbAnimate) \<in> set (pending st) \<longrightarrow> (h, CbAnimate) \<notin> set (pending st'))
           \<and> filter (\<lambda>p. snd p = CbAnimate) (pending st') = [(Suc (nextHandle st), CbAnimate)]
           \<and> animationFrameId st' = Some (Suc (nextHandle st))
           \<and> (\<forall>events h. (h, CbAnimate) \<in> set (pending (run events st'))
                 \<longrightarrow> animationFrameId (run events st') = Some h)
           \<and> wordToAnimate st' = supportedWord textInputValue
           \<and> currentWordCharIndex st' = 0
           \<and> currentFrame st' = 0
           \<and> completedCharacters st' = []
           \<and> processedPointsForCurrentChar st' = compiled (supportedWord textInputValue ! 0)
           \<and> totalFramesForCurrentChar st' = length (processedPointsForCurrentChar st')
           \<and> animationActive st')"
proof -
  let ?st' = "animateButtonClick textInputValue now st"
  let ?st2 = "stopOngoingAnimation (st\<lparr>wordToAnimate := supportedWord textInputValue\<rparr>)"
  note started = click_started [OF assms(2), of now st]
  from assms(1) have pinv: "pendingInv [] st"
    using reachable_inv by blast
  then have pinv1: "pendingInv [] (st\<lparr>wordToAnimate := supportedWord textInputValue\<rparr>)"
    by (simp add: pendingInv_def)
  have none: "(h, CbAnimate) \<notin> set (pending ?st2)" for h
    using pinv1 by (rule stop_no_animate)
  have old: "(h, CbAnimate) \<notin> set (pending ?st')" if "(h, CbAnimate) \<in> set (pending st)" for h
  proof -
    from pinv that have "h < nextHandle st"
      by (force simp add: pendingInv_def)
    with none [of h] show ?thesis
      by (simp add: started(10))
  qed
  have "filter (\<lambda>p. snd p = CbAnimate) (pending ?st2) = []"
    using none by (auto simp add: filter_empty_conv)
  then have one: "filter (\<lambda>p. snd p = CbAnimate) (pending ?st') = [(Suc (nextHandle st), CbAnimate)]"
    by (simp add: started(10))
  have r': "reachable ?st'"
    using reachable.event [OF assms(1), of "Click textInputValue now"] by simp
  have later: "animationFrameId (run events ?st') = Some h"
    if "(h, CbAnimate) \<in> set (pending (run events ?st'))" for events h
  proof -
    have "pendingInv [] (run events ?st')"
      using reachable_inv [OF reachable_run [OF r']] by blast
    with that show ?thesis
      by (simp add: pendingInv_def)
  qed
  from old one later started show ?thesis
    by (simp add: Let_def)
qed

text \<open>
  The word b is submitted while the animation of a is in progress: the pending
  tick with handle 3 is cancelled, the one with handle 5 takes its place.
\<close>

theorem click_cancels_pending_tick_witness:
  "reachable (animateButtonClick ''a'' 0 (windowOnload (initialWorld 800 600)))
   \<and> supportedWord ''b'' \<noteq> []
   \<and> (3, CbAnimate) \<in> set (pending (animateButtonClick ''a'' 0 (windowOnload (initialWorld 800 600))))
   \<and> (3, CbAnimate) \<notin> set (pending (animateButtonClick ''b'' 5
         (animateButtonClick ''a'' 0 (windowOnload (initialWorld 800 600)))))
   \<and> filter (\<lambda>p. snd p = CbAnimate) (pending (animateButtonClick ''b'' 5
         (animateButtonClick ''a'' 0 (windowOnload (initialWorld 800 600))))) = [(5, CbAnimate)]
   \<and> wordToAnimate (animateButtonClick ''b'' 5
         (animateButtonClick ''a'' 0 (windowOnload (initialWorld 800 600)))) = ''B''
   \<and> currentFrame (animateButtonClick ''b'' 5
         (animateButtonClick ''a'' 0 (windowOnload (initialWorld 800 600)))) = 0
   \<and> completedCharacters (animateButtonClick ''b'' 5
         (animateButtonClick ''a'' 0 (windowOnload (initialWorld 800 600)))) = []"
proof -
  let ?st = "animateButtonClick ''a'' 0 (windowOnload (initialWorld 800 600))"
  have a: "supportedWord ''a'' = ''A''" and b: "supportedWord ''b'' = ''B''"
    by (simp_all add: supportedWord_def upper_words CHARACTER_DRAWING_DATA_def)
  have r: "reachable ?st"
    using reachable.event [OF reachable_loaded, of "Click ''a'' 0" 800 600] by simp
  have ne: "supportedWord ''a'' \<noteq> []" "supportedWord ''b'' \<noteq> []"
    by (simp_all add: a b)
  have handle: "nextHandle ?st = 4"
    using click_started(11) [OF ne(1), of 0 "windowOnload (initialWorld 800 600)"]
    by (simp add: windowOnload_def initialWorld_def)
  have mem: "(3, CbAnimate) \<in> set (pending ?st)"
    using click_started(10) [OF ne(1), of 0 "windowOnload (initialWorld 800 600)"]
    by (simp add: windowOnload_def initialWorld_def)
  from click_cancels_pending_tick [OF r ne(2), of 5] mem handle r ne(2)
  show ?thesis
    by (simp add: Let_def b)
qed

subsection \<open>Glyphs of the table always have frames\<close>

text \<open>
  C10. For a character of the glyph table the compiled sequence has at least
  21 points, begins at the start of the first segment and ends at the end of the
  last one. So in every reachable state an active glyph is a character of the
  table with at least one frame; and for a word of table characters, in either
  version, preparing the current character succeeds with a sequence that is not
  empty, which is the negation of the condition under which the loop skips a
  character.
\<close>

theorem table_glyph_has_frames:
  assumes "CHARACTER_DRAWING_DATA c = Some segs"
  shows "(let (st', prepared) = prepareAnimationForCharacter CHARACTER_DRAWING_DATA c st
          in prepared
             \<and> 20 + 1 \<le> length (processedPointsForCurrentChar st')
             \<and> hd (processedPointsForCurrentChar st') = fst (hd segs)
             \<and> last (processedPointsForCurrentChar st') = snd (last segs)
             \<and> totalFramesForCurrentChar st' = length (processedPointsForCurrentChar st'))
       \<and> (\<forall>s. reachable s \<and> animationActive s \<longrightarrow>
              CHARACTER_DRAWING_DATA (wordToAnimate s ! currentWordCharIndex s) \<noteq> None
              \<and> processedPointsForCurrentChar s \<noteq> []
              \<and> 1 \<le> totalFramesForCurrentChar s)
       \<and> (\<forall>s table.
              (table = CHARACTER_DRAWING_DATA \<or> table = script_CHARACTER_DRAWING_DATA)
              \<and> (\<forall>c \<in> set (wordToAnimate s). table c \<noteq> None)
              \<and> currentWordCharIndex s < length (wordToAnimate s) \<longrightarrow>
              snd (prepareAnimationForCharacter table
                     (wordToAnimate s ! currentWordCharIndex s) s)
              \<and> processedPointsForCurrentChar
                    (fst (prepareAnimationForCharacter table
                            (wordToAnimate s ! currentWordCharIndex s) s)) \<noteq> [])"
proof -
  have ne: "segs \<noteq> []"
    using assms by (rule table_entry_nonempty)
  have glyph: "(let (st', prepared) = prepareAnimationForCharacter CHARACTER_DRAWING_DATA c st
          in prepared
             \<and> 20 + 1 \<le> length (processedPointsForCurrentChar st')
             \<and> hd (processedPointsForCurrentChar st') = fst (hd segs)
             \<and> last (processedPointsForCurrentChar st') = snd (last segs)
             \<and> totalFramesForCurrentChar st' = length (processedPointsForCurrentChar st'))"
    using flattenSegments_first [OF ne]
      flattenSegments_ends [OF ne table_entry_exactJoins [OF assms]]
    by (simp add: prepare_found [of CHARACTER_DRAWING_DATA c segs st, OF assms])
  have active: "CHARACTER_DRAWING_DATA (wordToAnimate s ! currentWordCharIndex s) \<noteq> None
              \<and> processedPointsForCurrentChar s \<noteq> []
              \<and> 1 \<le> totalFramesForCurrentChar s"
    if "reachable s" "animationActive s" for s
  proof -
    from that(1) have inv: "animationInv s"
      using reachable_inv by blast
    note a = animationInv_active [OF inv that(2)]
    have "CHARACTER_DRAWING_DATA (wordToAnimate s ! currentWordCharIndex s) \<noteq> None"
      using inv a(1) by (rule animationInv_supported)
    moreover have "1 \<le> totalFramesForCurrentChar s"
      using a(3,4) by simp
    ultimately show ?thesis
      using a(6) by simp
  qed
  have never: "snd (prepareAnimationForCharacter table
                     (wordToAnimate s ! currentWordCharIndex s) s)
              \<and> processedPointsForCurrentChar
                    (fst (prepareAnimationForCharacter table
                            (wordToAnimate s ! currentWordCharIndex s) s)) \<noteq> []"
    if tab: "table = CHARACTER_DRAWING_DATA \<or> table = script_CHARACTER_DRAWING_DATA"
      and word: "\<forall>c \<in> set (wordToAnimate s). table c \<noteq> None"
      and idx: "currentWordCharIndex s < length (wordToAnimate s)" for s table
  proof -
    let ?c = "wordToAnimate s ! currentWordCharIndex s"
    from word idx obtain glyph where entry: "table ?c = Some glyph"
      by force
    with tab have "CHARACTER_DRAWING_DATA ?c = Some glyph"
      using script_table_subset by blast
    then have "glyph \<noteq> []"
      by (rule table_entry_nonempty)
    then have "flattenSegments glyph [] \<noteq> []"
      using flattenSegments_last by blast
    then show ?thesis
      by (simp add: prepare_found [of table ?c glyph s, OF entry])
  qed
  from glyph active never show ?thesis
    by blast
qed

text \<open>
  The glyph J, the state after j was submitted, and the word A in the earlier
  version.
\<close>

theorem table_glyph_has_frames_witness:
  "CHARACTER_DRAWING_DATA (CHR ''J'') = Some glyph_J
   \<and> snd (prepareAnimationForCharacter CHARACTER_DRAWING_DATA (CHR ''J'') (initialWorld 800 600))
   \<and> hd (processedPointsForCurrentChar
        (fst (prepareAnimationForCharacter CHARACTER_DRAWING_DATA (CHR ''J'')
               (initialWorld 800 600)))) = (0, 0)
   \<and> last (processedPointsForCurrentChar
        (fst (prepareAnimationForCharacter CHARACTER_DRAWING_DATA (CHR ''J'')
               (initialWorld 800 600)))) = (0, 0)
   \<and> reachable (animateButtonClick ''j'' 0 (windowOnload (initialWorld 800 600)))
   \<and> animationActive (animateButtonClick ''j'' 0 (windowOnload (initialWorld 800 600)))
   \<and> processedPointsForCurrentChar
        (animateButtonClick ''j'' 0 (windowOnload (initialWorld 800 600))) \<noteq> []
   \<and> snd (prepareAnimationForCharacter script_CHARACTER_DRAWING_DATA (CHR ''A'')
        ((initialWorld 800 600)\<lparr>wordToAnimate := ''A''\<rparr>))"
proof -
  let ?st = "animateButtonClick ''j'' 0 (windowOnload (initialWorld 800 600))"
  let ?s = "(initialWorld 800 600)\<lparr>wordToAnimate := ''A''\<rparr>"
  have entry: "CHARACTER_DRAWING_DATA (CHR ''J'') = Some glyph_J"
    by (simp add: CHARACTER_DRAWING_DATA_def)
  have ends: "fst (hd glyph_J) = (0, 0)" "snd (last glyph_J) = (0, 0)"
    by (simp_all add: glyph_J_def literals_def)
  have r: "reachable ?st"
    using reachable.event [OF reachable_loaded, of "Click ''j'' 0" 800 600] by simp
  have act: "animationActive ?st"
    using click_started(7) [of "''j''" 0 "windowOnload (initialWorld 800 600)"]
    by (simp add: supportedWord_j)
  have word: "\<forall>c \<in> set (wordToAnimate ?s). script_CHARACTER_DRAWING_DATA c \<noteq> None"
    and idx: "currentWordCharIndex ?s < length (wordToAnimate ?s)"
    and at: "wordToAnimate ?s ! currentWordCharIndex ?s = CHR ''A''"
    by (simp_all add: initialWorld_def script_CHARACTER_DRAWING_DATA_def)
  note inst = table_glyph_has_frames [OF entry, of "initialWorld 800 600"]
  have "processedPointsForCurrentChar ?st \<noteq> []"
    using inst [THEN conjunct2, THEN conjunct1] r act by blast
  moreover have "snd (prepareAnimationForCharacter script_CHARACTER_DRAWING_DATA
                     (wordToAnimate ?s ! currentWordCharIndex ?s) ?s)"
    using inst [THEN conjunct2, THEN conjunct2] word idx by blast
  then have "snd (prepareAnimationForCharacter script_CHARACTER_DRAWING_DATA (CHR ''A'') ?s)"
    by (simp only: at)
  ultimately show ?thesis
    using inst [THEN conjunct1] entry ends r act
    by (simp add: Let_def split_beta)
qed

subsection \<open>A character without a glyph\<close>

lemma script_drawPath_canvas_only:
  "script_drawPath points offset st = st\<lparr>canvas := canvas (script_drawPath points offset st)\<rparr>"
  by (simp add: script_drawPath_def)

lemma fold_script_drawPath_canvas_only:
  "fold (\<lambda>c. script_drawPath (processedPoints c) (xOffset c)) cs st =
     st\<lparr>canvas := canvas (fold (\<lambda>c. script_drawPath (processedPoints c) (xOffset c)) cs st)\<rparr>"
proof (induction cs arbitrary: st)
  case Nil
  then show ?case by simp
next
  case (Cons c cs)
  let ?d = "script_drawPath (processedPoints c) (xOffset c) st"
  let ?f = "fold (\<lambda>c. script_drawPath (processedPoints c) (xOffset c)) cs"
  have "?f ?d = ?d\<lparr>canvas := canvas (?f ?d)\<rparr>"
    by (rule Cons.IH)
  also have "\<dots> = (st\<lparr>canvas := canvas ?d\<rparr>)\<lparr>canvas := canvas (?f ?d)\<rparr>"
    using script_drawPath_canvas_only [of "processedPoints c" "xOffset c" st] by simp
  also have "\<dots> = st\<lparr>canvas := canvas (?f ?d)\<rparr>"
    by simp
  finally show ?case by simp
qed

lemma fold_script_drawPath_timestamp:
  "fold (\<lambda>c. script_drawPath (processedPoints c) (xOffset c)) cs (st\<lparr>lastTimestamp := t\<rparr>) =
     (fold (\<lambda>c. script_drawPath (processedPoints c) (xOffset c)) cs st)\<lparr>lastTimestamp := t\<rparr>"
proof (induction cs arbitrary: st)
  case Nil
  then show ?case by simp
next
  case (Cons c cs)
  have "script_drawPath (processedPoints c) (xOffset c) (st\<lparr>lastTimestamp := t\<rparr>) =
        (script_drawPath (processedPoints c) (xOffset c) st)\<lparr>lastTimestamp := t\<rparr>"
    by (simp add: script_drawPath_def script_transformPoint_def)
  then show ?case
    using Cons.IH by simp
qed

lemma script_drawCompleted_fields:
  "script_drawCompletedCharacters (st\<lparr>lastTimestamp := t, canvas := []\<rparr>) =
     st\<lparr>lastTimestamp := t,
        canvas := canvas (script_drawCompletedCharacters (st\<lparr>canvas := []\<rparr>))\<rparr>"
proof -
  let ?f = "fold (\<lambda>c. script_drawPath (processedPoints c) (xOffset c)) (completedCharacters st)"
  have eq: "st\<lparr>lastTimestamp := t, canvas := []\<rparr> =
      (st\<lparr>canvas := []\<rparr>)\<lparr>lastTimestamp := t\<rparr>"
    by simp
  have "script_drawCompletedCharacters (st\<lparr>lastTimestamp := t, canvas := []\<rparr>) =
          script_drawCompletedCharacters ((st\<lparr>canvas := []\<rparr>)\<lparr>lastTimestamp := t\<rparr>)"
    by (simp only: eq)
  also have "\<dots> = ?f ((st\<lparr>canvas := []\<rparr>)\<lparr>lastTimestamp := t\<rparr>)"
    by (simp add: script_drawCompletedCharacters_def)
  also have "\<dots> = (?f (st\<lparr>canvas := []\<rparr>))\<lparr>lastTimestamp := t\<rparr>"
    by (rule fold_script_drawPath_timestamp)
  also have "?f (st\<lparr>canvas := []\<rparr>) =
      (st\<lparr>canvas := []\<rparr>)\<lparr>canvas := canvas (?f (st\<lparr>canvas := []\<rparr>))\<rparr>"
    by (rule fold_script_drawPath_canvas_only)
  finally show ?thesis
    by (simp add: script_drawCompletedCharacters_def)
qed

text \<open>
  C7. For a character without an entry in the table,
  \<open>prepareAnimationForCharacter\<close> returns false and leaves an empty sequence;
  nothing is thrown. When the loop of the earlier version meets such a character
  on a tick, it moves to the next character at once, with cursor 0, draws the
  finished characters and nothing else, and requests the next frame.
\<close>

theorem unknown_glyph_is_skipped:
  assumes "script_CHARACTER_DRAWING_DATA c = None"
  shows "prepareAnimationForCharacter script_CHARACTER_DRAWING_DATA c st =
           (st\<lparr>processedPointsForCurrentChar := [], totalFramesForCurrentChar := 0\<rparr>, False)
       \<and> (CHARACTER_DRAWING_DATA c = None \<longrightarrow>
            prepareAnimationForCharacter CHARACTER_DRAWING_DATA c st =
              (st\<lparr>processedPointsForCurrentChar := [], totalFramesForCurrentChar := 0\<rparr>, False))
       \<and> (animationActive st
          \<and> timestamp - lastTimestamp st \<ge> script_ANIMATION_INTERVAL_MS
          \<and> currentWordCharIndex st < length (wordToAnimate st)
          \<and> wordToAnimate st ! currentWordCharIndex st = c
          \<and> processedPointsForCurrentChar st = [] \<longrightarrow>
            (let st' = script_animate timestamp st
             in currentWordCharIndex st' = currentWordCharIndex st + 1
                \<and> currentFrame st' = 0
                \<and> processedPointsForCurrentChar st' = []
                \<and> completedCharacters st' = completedCharacters st
                \<and> canvas st' = canvas (script_drawCompletedCharacters (st\<lparr>canvas := []\<rparr>))
                \<and> pending st' = pending st @ [(nextHandle st, CbAnimate)]
                \<and> animationActive st'))"
proof -
  have skip: "(let st' = script_animate timestamp st
             in currentWordCharIndex st' = currentWordCharIndex st + 1
                \<and> currentFrame st' = 0
                \<and> processedPointsForCurrentChar st' = []
                \<and> completedCharacters st' = completedCharacters st
                \<and> canvas st' = canvas (script_drawCompletedCharacters (st\<lparr>canvas := []\<rparr>))
                \<and> pending st' = pending st @ [(nextHandle st, CbAnimate)]
                \<and> animationActive st')"
    if "animationActive st"
      and "timestamp - lastTimestamp st \<ge> script_ANIMATION_INTERVAL_MS"
      and "currentWordCharIndex st < length (wordToAnimate st)"
      and "wordToAnimate st ! currentWordCharIndex st = c"
      and "processedPointsForCurrentChar st = []"
    using that assms
    by (simp add: script_animate_def Let_def script_drawCompleted_fields prepare_missing
          requestAnimationFrame_def)
  show ?thesis
    using skip assms by (simp add: prepare_missing)
qed

text \<open>
  The word ZA in the earlier version, whose table has no Z.
\<close>

theorem unknown_glyph_is_skipped_witness:
  "script_CHARACTER_DRAWING_DATA (CHR ''Z'') = None
   \<and> \<not> snd (prepareAnimationForCharacter script_CHARACTER_DRAWING_DATA (CHR ''Z'')
          ((initialWorld 600 600)\<lparr>wordToAnimate := ''ZA'', animationActive := True\<rparr>))
   \<and> currentWordCharIndex (script_animate 20
        ((initialWorld 600 600)\<lparr>wordToAnimate := ''ZA'', animationActive := True\<rparr>)) = 1
   \<and> currentFrame (script_animate 20
        ((initialWorld 600 600)\<lparr>wordToAnimate := ''ZA'', animationActive := True\<rparr>)) = 0
   \<and> canvas (script_animate 20
        ((initialWorld 600 600)\<lparr>wordToAnimate := ''ZA'', animationActive := True\<rparr>)) = []
   \<and> pending (script_animate 20
        ((initialWorld 600 600)\<lparr>wordToAnimate := ''ZA'', animationActive := True\<rparr>))
       = [(1, CbAnimate)]"
proof -
  let ?st = "(initialWorld 600 600)\<lparr>wordToAnimate := ''ZA'', animationActive := True\<rparr>"
  have missing: "script_CHARACTER_DRAWING_DATA (CHR ''Z'') = None"
    by (simp add: script_CHARACTER_DRAWING_DATA_def)
  have hyps: "animationActive ?st
          \<and> 20 - lastTimestamp ?st \<ge> script_ANIMATION_INTERVAL_MS
          \<and> currentWordCharIndex ?st < length (wordToAnimate ?st)
          \<and> wordToAnimate ?st ! currentWordCharIndex ?st = CHR ''Z''
          \<and> processedPointsForCurrentChar ?st = []"
    by (simp add: initialWorld_def script_ANIMATION_INTERVAL_MS_def)
  have blank: "canvas (script_drawCompletedCharacters (?st\<lparr>canvas := []\<rparr>)) = []"
    by (simp add: script_drawCompletedCharacters_def initialWorld_def)
  note inst = unknown_glyph_is_skipped [OF missing, of ?st 20]
  from inst [THEN conjunct2, THEN conjunct2] hyps
  have "(let st' = script_animate 20 ?st
             in currentWordCharIndex st' = currentWordCharIndex ?st + 1
                \<and> currentFrame st' = 0
                \<and> processedPointsForCurrentChar st' = []
                \<and> completedCharacters st' = completedCharacters ?st
                \<and> canvas st' = canvas (script_drawCompletedCharacters (?st\<lparr>canvas := []\<rparr>))
                \<and> pending st' = pending ?st @ [(nextHandle ?st, CbAnimate)]
                \<and> animationActive st')"
    by blast
  then show ?thesis
    using inst [THEN conjunct1] missing blank
    by (simp add: Let_def initialWorld_def)
qed

subsection \<open>Submitting a word during an animation: the earlier version\<close>

lemma script_click_fields:
  assumes "filter (\<lambda>c. script_CHARACTER_DRAWING_DATA c \<noteq> None)
             (toUpperCase (trim textInputValue)) = word"
    and "word \<noteq> []"
  shows "pending (script_animateButtonClick textInputValue st) =
           pending st @ [(nextHandle st, CbAnimate)]"
    and "nextHandle (script_animateButtonClick textInputValue st) = Suc (nextHandle st)"
    and "wordToAnimate (script_animateButtonClick textInputValue st) = word"
    and "currentWordCharIndex (script_animateButtonClick textInputValue st) = 0"
    and "currentFrame (script_animateButtonClick textInputValue st) = 0"
    and "processedPointsForCurrentChar (script_animateButtonClick textInputValue st) = []"
    and "completedCharacters (script_animateButtonClick textInputValue st) = []"
    and "animationActive (script_animateButtonClick textInputValue st)"
    and "lastTimestamp (script_animateButtonClick textInputValue st) = lastTimestamp st"
  using assms
  by (simp_all add: script_animateButtonClick_def Let_def requestAnimationFrame_def)

text \<open>
  The first tick of a character of the table: the character is prepared, its
  first point is the path, and the cursor moves to 1.
\<close>

lemma script_animate_first_tick:
  assumes "animationActive st"
    and "timestamp - lastTimestamp st \<ge> script_ANIMATION_INTERVAL_MS"
    and "currentWordCharIndex st < length (wordToAnimate st)"
    and "processedPointsForCurrentChar st = []"
    and "script_CHARACTER_DRAWING_DATA (wordToAnimate st ! currentWordCharIndex st) = Some segs"
  shows "currentFrame (script_animate timestamp st) = 1"
    and "wordToAnimate (script_animate timestamp st) = wordToAnimate st"
    and "currentWordCharIndex (script_animate timestamp st) = currentWordCharIndex st"
    and "pending (script_animate timestamp st) = pending st @ [(nextHandle st, CbAnimate)]"
    and "nextHandle (script_animate timestamp st) = Suc (nextHandle st)"
    and "lastTimestamp (script_animate timestamp st) =
           timestamp - js_rem (timestamp - lastTimestamp st) script_ANIMATION_INTERVAL_MS"
    and "animationActive (script_animate timestamp st)"
proof -
  have "segs \<noteq> []"
    using assms(5) script_table_subset table_entry_nonempty by blast
  then have long: "21 \<le> length (flattenSegments segs [])"
    using flattenSegments_first by blast
  have draw: "script_drawPath (take (Suc 0) points) offset s = s" for points offset s
    by (simp add: script_drawPath_def)
  show "currentFrame (script_animate timestamp st) = 1"
    and "wordToAnimate (script_animate timestamp st) = wordToAnimate st"
    and "currentWordCharIndex (script_animate timestamp st) = currentWordCharIndex st"
    and "pending (script_animate timestamp st) = pending st @ [(nextHandle st, CbAnimate)]"
    and "nextHandle (script_animate timestamp st) = Suc (nextHandle st)"
    and "lastTimestamp (script_animate timestamp st) =
           timestamp - js_rem (timestamp - lastTimestamp st) script_ANIMATION_INTERVAL_MS"
    and "animationActive (script_animate timestamp st)"
    using assms long
    by (simp_all add: script_animate_def Let_def script_drawCompleted_fields
          prepare_found [of script_CHARACTER_DRAWING_DATA _ segs] draw
          requestAnimationFrame_def)
qed

text \<open>A tick before the interval has elapsed only requests the next frame.\<close>

lemma script_animate_early:
  assumes "animationActive st"
    and "timestamp - lastTimestamp st < script_ANIMATION_INTERVAL_MS"
  shows "script_animate timestamp st =
           st\<lparr>pending := pending st @ [(nextHandle st, CbAnimate)],
              nextHandle := Suc (nextHandle st)\<rparr>"
  using assms by (simp add: script_animate_def Let_def requestAnimationFrame_def)

text \<open>
  C4, in the earlier version. The word a is submitted on the fresh page and the
  word b before a frame has run. The handler of the second click cancels
  nothing: the \<open>animate\<close> callback that the first click has requested, with
  handle 1, is still pending beside the new one, with handle 2. In the next
  frame the callback of the first click runs first and moves the cursor of the
  new word b to 1; from then on two callbacks are pending in every frame.
\<close>

theorem script_click_keeps_pending_tick:
  "(let st1 = script_animateButtonClick ''a'' (initialWorld 600 600);
        st2 = script_animateButtonClick ''b'' st1;
        stale = script_runCallback 20 (1, CbAnimate) (st2\<lparr>pending := []\<rparr>);
        st3 = script_animationFrame 20 st2
    in animationActive st1
       \<and> pending st1 = [(1, CbAnimate)]
       \<and> pending st2 = [(1, CbAnimate), (2, CbAnimate)]
       \<and> wordToAnimate st2 = ''B''
       \<and> currentFrame st2 = 0
       \<and> wordToAnimate stale = ''B''
       \<and> currentFrame stale = 1
       \<and> st3 = script_runCallback 20 (2, CbAnimate) stale
       \<and> currentFrame st3 = 1
       \<and> pending st3 = [(3, CbAnimate), (4, CbAnimate)])"
proof -
  let ?st1 = "script_animateButtonClick ''a'' (initialWorld 600 600)"
  let ?st2 = "script_animateButtonClick ''b'' ?st1"
  let ?st = "?st2\<lparr>pending := []\<rparr>"
  let ?stale = "script_animate 20 ?st"
  have a: "filter (\<lambda>c. script_CHARACTER_DRAWING_DATA c \<noteq> None) (toUpperCase (trim ''a'')) = ''A''"
    and b: "filter (\<lambda>c. script_CHARACTER_DRAWING_DATA c \<noteq> None) (toUpperCase (trim ''b'')) = ''B''"
    by (simp_all add: upper_words script_CHARACTER_DRAWING_DATA_def)
  note first = script_click_fields [OF a, of "initialWorld 600 600"]
  note second = script_click_fields [OF b, of ?st1]
  have p1: "pending ?st1 = [(1, CbAnimate)]" and n1: "nextHandle ?st1 = 2"
    and t1: "lastTimestamp ?st1 = 0"
    using first(1,2,9) by (simp_all add: initialWorld_def)
  have p2: "pending ?st2 = [(1, CbAnimate), (2, CbAnimate)]" and n2: "nextHandle ?st2 = 3"
    and t2: "lastTimestamp ?st2 = 0"
    using second(1,2,9) by (simp_all add: p1 n1 t1)
  have entry: "script_CHARACTER_DRAWING_DATA (wordToAnimate ?st ! currentWordCharIndex ?st) =
      Some glyph_B"
    using second(3,4) by (simp add: script_CHARACTER_DRAWING_DATA_def)
  have hyps: "animationActive ?st" "20 - lastTimestamp ?st \<ge> script_ANIMATION_INTERVAL_MS"
    "currentWordCharIndex ?st < length (wordToAnimate ?st)"
    "processedPointsForCurrentChar ?st = []"
    using second(3,4,6,8) t2 by (simp_all add: script_ANIMATION_INTERVAL_MS_def)
  note tick = script_animate_first_tick [OF hyps entry]
  have rem: "js_rem 20 script_ANIMATION_INTERVAL_MS = 0"
    by (simp add: js_rem_def script_ANIMATION_INTERVAL_MS_def)
  have stale_fields: "wordToAnimate ?stale = ''B''" "currentFrame ?stale = 1"
    "pending ?stale = [(3, CbAnimate)]" "nextHandle ?stale = 4" "lastTimestamp ?stale = 20"
    "animationActive ?stale"
    using tick second(3) by (simp_all add: n2 t2 rem)
  have early: "20 - lastTimestamp ?stale < script_ANIMATION_INTERVAL_MS"
    by (simp add: stale_fields(5) script_ANIMATION_INTERVAL_MS_def)
  have frame: "script_animationFrame 20 ?st2 = script_animate 20 ?stale"
    by (simp add: script_animationFrame_def p2)
  have after: "currentFrame (script_animate 20 ?stale) = 1"
    "pending (script_animate 20 ?stale) = [(3, CbAnimate), (4, CbAnimate)]"
    by (simp_all add: script_animate_early [OF stale_fields(6) early] stale_fields)
  show ?thesis
    using first(8) p1 p2 second(3,5) stale_fields(1,2) frame after
    by (simp add: Let_def)
qed

subsection \<open>Running a word to completion\<close>

lemma step_animationInv:
  "animationInv st \<Longrightarrow> animationInv (step e st)"
  by (cases e) (simp_all add: click_inv frame_inv resize_inv onload_inv)

lemma step_word:
  "\<not> isClick e \<Longrightarrow> wordToAnimate (step e st) = wordToAnimate st"
  by (cases e) (simp_all add: frame_word resize_word windowOnload_def)

lemma run_animationInv:
  "animationInv st \<Longrightarrow> animationInv (run events st)"
  unfolding run_def
  by (induction events arbitrary: st) (simp_all add: step_animationInv)

lemma run_word:
  "\<forall>e \<in> set events. \<not> isClick e \<Longrightarrow> wordToAnimate (run events st) = wordToAnimate st"
  unfolding run_def
  by (induction events arbitrary: st) (simp_all add: step_word)

lemma run_append: "run (xs @ ys) st = run ys (run xs st)"
  by (simp add: run_def)

lemma finished_completed:
  assumes "animationInv st" "\<not> animationActive st" "wordToAnimate st \<noteq> []"
  shows "completedCharacters st = completedUpTo (wordToAnimate st) (length (wordToAnimate st))"
  using assms by (simp add: animationInv_def)

text \<open>Callbacks that only redraw change the canvas and nothing else.\<close>

lemma fold_redraws:
  assumes "\<forall>p \<in> set cbs. snd p = CbRedraw" "animationInv st"
  shows "fold (runCallback timestamp) cbs st =
           st\<lparr>canvas := canvas (fold (runCallback timestamp) cbs st)\<rparr>"
  using assms
proof (induction cbs arbitrary: st)
  case Nil
  then show ?case by simp
next
  case (Cons cb cbs)
  obtain h where cb: "cb = (h, CbRedraw)"
    using Cons.prems(1) by (cases cb) simp
  let ?r = "redrawCanvasContent st"
  have "animationActive st \<longrightarrow> processedPointsForCurrentChar st \<noteq> []"
    using Cons.prems(2) by (auto simp add: animationInv_def)
  then have shape: "?r = st\<lparr>canvas := canvas ?r\<rparr>"
    by (rule redraw_canvas_only)
  have inv: "animationInv ?r"
    using Cons.prems(2) by (rule redraw_inv)
  have "fold (runCallback timestamp) cbs ?r =
          ?r\<lparr>canvas := canvas (fold (runCallback timestamp) cbs ?r)\<rparr>"
    using Cons.prems(1) inv by (intro Cons.IH) simp_all
  also have "\<dots> = (st\<lparr>canvas := canvas ?r\<rparr>)\<lparr>canvas := canvas (fold (runCallback timestamp) cbs ?r)\<rparr>"
    using shape by simp
  also have "\<dots> = st\<lparr>canvas := canvas (fold (runCallback timestamp) cbs ?r)\<rparr>"
    by simp
  finally show ?case
    by (simp add: cb)
qed

text \<open>
  A frame in which exactly one \<open>animate\<close> is pending: the animation variables
  afterwards are those that \<open>animate\<close> leaves.
\<close>

lemma frame_single_animate:
  assumes inv: "animationInv st" and pinv: "pendingInv [] st"
    and mem: "(h, CbAnimate) \<in> set (pending st)"
  obtains s1 cv where
    "animationFrame timestamp st = (animate timestamp s1)\<lparr>canvas := cv\<rparr>"
    and "animationInv s1"
    and "wordToAnimate s1 = wordToAnimate st"
    and "currentWordCharIndex s1 = currentWordCharIndex st"
    and "processedPointsForCurrentChar s1 = processedPointsForCurrentChar st"
    and "currentFrame s1 = currentFrame st"
    and "animationActive s1 = animationActive st"
    and "completedCharacters s1 = completedCharacters st"
    and "lastTimestamp s1 = lastTimestamp st"
    and "pending s1 = []"
    and "nextHandle s1 = nextHandle st"
proof -
  from mem obtain pre post where split: "pending st = pre @ (h, CbAnimate) # post"
    by (meson split_list)
  have id: "animationFrameId st = Some h"
    using pinv mem by (simp add: pendingInv_def)
  have dist: "distinct (map fst (pending st))"
    using pinv by (simp add: pendingInv_def)
  have redraw: "snd p = CbRedraw" if "p \<in> set pre \<union> set post" for p
  proof (cases p)
    case (Pair k kind)
    show ?thesis
    proof (cases kind)
      case CbRedraw
      with Pair show ?thesis by simp
    next
      case CbAnimate
      with Pair that split have "(k, CbAnimate) \<in> set (pending st)"
        by auto
      with pinv id have "k = h"
        by (simp add: pendingInv_def)
      with Pair that dist split show ?thesis
        by force
    qed
  qed
  let ?s0 = "st\<lparr>pending := []\<rparr>"
  have inv0: "animationInv ?s0"
    using inv animationInv_cong [of ?s0 st] by simp
  let ?s1 = "fold (runCallback timestamp) pre ?s0"
  have shape1: "?s1 = ?s0\<lparr>canvas := canvas ?s1\<rparr>"
    using redraw inv0 by (intro fold_redraws) simp_all
  have inv1: "animationInv ?s1"
    using inv0 by (rule fold_callbacks_inv)
  let ?s2 = "animate timestamp ?s1"
  have inv2: "animationInv ?s2"
    using inv1 by (rule animate_inv)
  let ?s3 = "fold (runCallback timestamp) post ?s2"
  have shape3: "?s3 = ?s2\<lparr>canvas := canvas ?s3\<rparr>"
    using redraw inv2 by (intro fold_redraws) simp_all
  have frame: "animationFrame timestamp st = ?s3"
    by (simp add: animationFrame_def split)
  show ?thesis
  proof (rule that [of "canvas ?s3" ?s1])
    show "animationFrame timestamp st = ?s2\<lparr>canvas := canvas ?s3\<rparr>"
      using frame shape3 by simp
    show "animationInv ?s1" by (rule inv1)
    show "wordToAnimate ?s1 = wordToAnimate st" by (subst shape1) simp
    show "currentWordCharIndex ?s1 = currentWordCharIndex st" by (subst shape1) simp
    show "processedPointsForCurrentChar ?s1 = processedPointsForCurrentChar st"
      by (subst shape1) simp
    show "currentFrame ?s1 = currentFrame st" by (subst shape1) simp
    show "animationActive ?s1 = animationActive st" by (subst shape1) simp
    show "completedCharacters ?s1 = completedCharacters st" by (subst shape1) simp
    show "lastTimestamp ?s1 = lastTimestamp st" by (subst shape1) simp
    show "pending ?s1 = []" by (subst shape1) simp
    show "nextHandle ?s1 = nextHandle st" by (subst shape1) simp
  qed
qed

lemma js_rem_interval: "js_rem ANIMATION_INTERVAL_MS ANIMATION_INTERVAL_MS = 0"
  by (simp add: js_rem_def ANIMATION_INTERVAL_MS_def)

lemma totalFrames_drop:
  "k < length word \<Longrightarrow>
   totalFrames (drop k word) = length (compiled (word ! k)) + totalFrames (drop (Suc k) word)"
  by (simp add: totalFrames_def Cons_nth_drop_Suc [symmetric])

lemma animate_due_pending:
  assumes "animationActive st" "timestamp - lastTimestamp st \<ge> ANIMATION_INTERVAL_MS"
    and "animationActive (ticked timestamp st)"
  shows "pending (animate timestamp st) = pending st @ [(nextHandle st, CbAnimate)]"
  using assms by (simp add: animate_active Let_def)

lemma frame_progress:
  assumes inv: "animationInv st" and pinv: "pendingInv [] st"
    and act: "animationActive st"
    and mem: "(h, CbAnimate) \<in> set (pending st)"
  shows "Suc (remainingFrames
            (animationFrame (lastTimestamp st + ANIMATION_INTERVAL_MS) st)) = remainingFrames st"
    and "lastTimestamp (animationFrame (lastTimestamp st + ANIMATION_INTERVAL_MS) st) =
           lastTimestamp st + ANIMATION_INTERVAL_MS"
    and "animationActive (animationFrame (lastTimestamp st + ANIMATION_INTERVAL_MS) st) \<longrightarrow>
           (\<exists>h'. (h', CbAnimate) \<in>
              set (pending (animationFrame (lastTimestamp st + ANIMATION_INTERVAL_MS) st)))"
proof -
  let ?ts = "lastTimestamp st + ANIMATION_INTERVAL_MS"
  obtain s1 cv where frame: "animationFrame ?ts st = (animate ?ts s1)\<lparr>canvas := cv\<rparr>"
    and inv1: "animationInv s1"
    and eqs: "wordToAnimate s1 = wordToAnimate st"
      "currentWordCharIndex s1 = currentWordCharIndex st"
      "processedPointsForCurrentChar s1 = processedPointsForCurrentChar st"
      "currentFrame s1 = currentFrame st"
      "animationActive s1 = animationActive st"
      "completedCharacters s1 = completedCharacters st"
      "lastTimestamp s1 = lastTimestamp st"
    using frame_single_animate [OF inv pinv mem, of ?ts] by metis
  have act1: "animationActive s1"
    using act eqs by simp
  have due: "?ts - lastTimestamp s1 \<ge> ANIMATION_INTERVAL_MS"
    using eqs by simp
  note after = animate_due [OF act1 due]
  show "lastTimestamp (animationFrame ?ts st) = ?ts"
    using eqs by (simp add: frame after js_rem_interval)
  show "animationActive (animationFrame ?ts st) \<longrightarrow>
           (\<exists>h'. (h', CbAnimate) \<in> set (pending (animationFrame ?ts st)))"
  proof
    assume "animationActive (animationFrame ?ts st)"
    then have "animationActive (ticked ?ts s1)"
      by (simp add: frame after)
    then have "pending (animate ?ts s1) = pending s1 @ [(nextHandle s1, CbAnimate)]"
      using act1 due by (intro animate_due_pending)
    then show "\<exists>h'. (h', CbAnimate) \<in> set (pending (animationFrame ?ts st))"
      by (auto simp add: frame)
  qed
  show "Suc (remainingFrames (animationFrame ?ts st)) = remainingFrames st"
    using inv1 act1
  proof (cases rule: advance_cases)
    case frame1: frame
    note t = ticked_next_frame [OF inv1 act1 frame1, of ?ts]
    show ?thesis
      using frame1 act eqs
      by (simp add: remainingFrames_def frame after t)
  next
    case char
    note t = ticked_next_char [OF inv1 act1 char, of ?ts]
    have "totalFrames (drop (Suc (currentWordCharIndex st)) (wordToAnimate st)) =
            length (compiled (wordToAnimate st ! Suc (currentWordCharIndex st)))
            + totalFrames (drop (Suc (Suc (currentWordCharIndex st))) (wordToAnimate st))"
      using char(2) eqs by (intro totalFrames_drop) simp
    then show ?thesis
      using char act eqs
      by (simp add: remainingFrames_def frame after t)
  next
    case finish
    note t = ticked_finish [OF inv1 act1 finish, of ?ts]
    show ?thesis
      using finish act eqs
      by (simp add: remainingFrames_def frame after t totalFrames_def)
  qed
qed

lemma remaining_active:
  assumes "animationInv st"
  shows "animationActive st \<longleftrightarrow> 0 < remainingFrames st"
proof (cases "animationActive st")
  case True
  with animationInv_active(4) [OF assms True] show ?thesis
    by (simp add: remainingFrames_def)
next
  case False
  then show ?thesis by (simp add: remainingFrames_def)
qed

lemma run_nominal:
  assumes "animationInv st" "pendingInv [] st"
    and "animationActive st \<longrightarrow> (\<exists>h. (h, CbAnimate) \<in> set (pending st))"
    and "n \<le> remainingFrames st"
  shows "remainingFrames (run (nominalFrames (lastTimestamp st) n) st) + n = remainingFrames st"
  using assms
proof (induction n arbitrary: st)
  case 0
  then show ?case by (simp add: run_def)
next
  case (Suc n)
  let ?ts = "lastTimestamp st + ANIMATION_INTERVAL_MS"
  let ?st' = "animationFrame ?ts st"
  from Suc.prems(1,4) have act: "animationActive st"
    by (simp add: remaining_active)
  with Suc.prems(3) obtain h where mem: "(h, CbAnimate) \<in> set (pending st)"
    by blast
  note progress = frame_progress [OF Suc.prems(1,2) act mem]
  have inv': "animationInv ?st'"
    using Suc.prems(1) by (rule frame_inv)
  have pinv': "pendingInv [] ?st'"
    using Suc.prems(2) by (rule frame_pendingInv)
  have "n \<le> remainingFrames ?st'"
    using progress(1) Suc.prems(4) by simp
  with inv' pinv' progress(3)
  have "remainingFrames (run (nominalFrames (lastTimestamp ?st') n) ?st') + n =
          remainingFrames ?st'"
    by (rule Suc.IH)
  then show ?case
    using progress(1,2) by (simp add: run_def)
qed

lemma click_remaining:
  assumes "supportedWord textInputValue \<noteq> []"
  shows "remainingFrames (animateButtonClick textInputValue now st) =
           totalFrames (supportedWord textInputValue)"
proof -
  have "totalFrames (drop 0 (supportedWord textInputValue)) =
          length (compiled (supportedWord textInputValue ! 0))
          + totalFrames (drop (Suc 0) (supportedWord textInputValue))"
    using assms by (intro totalFrames_drop) simp
  then show ?thesis
    by (simp add: remainingFrames_def click_started [OF assms])
qed

text \<open>
  After a click on a supported word, frames at the nominal interval finish the
  word after \<open>totalFrames\<close> ticks.
\<close>

lemma click_runs_to_completion:
  assumes "reachable st" "supportedWord textInputValue \<noteq> []"
  shows "\<not> animationActive
           (run (nominalFrames now (totalFrames (supportedWord textInputValue)))
              (animateButtonClick textInputValue now st))"
proof -
  let ?st' = "animateButtonClick textInputValue now st"
  let ?n = "totalFrames (supportedWord textInputValue)"
  have r: "reachable ?st'"
    using reachable.event [OF assms(1), of "Click textInputValue now"] by simp
  then have inv: "animationInv ?st'" and pinv: "pendingInv [] ?st'"
    using reachable_inv by blast+
  have mem: "animationActive ?st' \<longrightarrow> (\<exists>h. (h, CbAnimate) \<in> set (pending ?st'))"
    by (auto simp add: click_started(10) [OF assms(2)])
  have n: "?n \<le> remainingFrames ?st'"
    by (simp add: click_remaining [OF assms(2)])
  have last: "lastTimestamp ?st' = now"
    by (rule click_started(8) [OF assms(2)])
  have "remainingFrames (run (nominalFrames now ?n) ?st') + ?n = remainingFrames ?st'"
    using run_nominal [OF inv pinv mem n] by (simp add: last)
  then have "remainingFrames (run (nominalFrames now ?n) ?st') = 0"
    by (simp add: click_remaining [OF assms(2)])
  moreover have "animationInv (run (nominalFrames now ?n) ?st')"
    using inv by (rule run_animationInv)
  ultimately show ?thesis
    by (simp add: remaining_active)
qed

lemma nominalFrames_no_click: "\<forall>e \<in> set (nominalFrames t0 n). \<not> isClick e"
  by (induction n arbitrary: t0) simp_all

subsection \<open>Submitting the same word again\<close>

text \<open>
  C9. Let a text with at least one supported character be submitted, let its
  animation run until it is inactive, let the same text be submitted again and
  let that animation run until it is inactive too, with frames and resizes but
  no other click in between. Then the second submission starts at character 0
  and cursor 0 with an empty completed set, and the second run ends with the
  completed set of the first: for each character of the word, in order, its
  compiled point sequence and its slot offset. Such runs exist: with a frame
  every \<open>ANIMATION_INTERVAL_MS\<close> the animation is inactive after
  \<open>totalFrames\<close> frames.
\<close>

theorem resubmit_reproduces_completed_set:
  assumes "reachable st0" and "supportedWord textInputValue \<noteq> []"
  shows "(\<forall>st now. reachable st \<longrightarrow>
            \<not> animationActive
                (run (nominalFrames now (totalFrames (supportedWord textInputValue)))
                   (animateButtonClick textInputValue now st)))
       \<and> (\<forall>events1 events2.
            (\<forall>e \<in> set events1. \<not> isClick e) \<and> (\<forall>e \<in> set events2. \<not> isClick e)
            \<and> \<not> animationActive (run events1 (animateButtonClick textInputValue now1 st0))
            \<and> \<not> animationActive
                  (run events2 (animateButtonClick textInputValue now2
                     (run events1 (animateButtonClick textInputValue now1 st0))))
            \<longrightarrow>
            (let st1 = run events1 (animateButtonClick textInputValue now1 st0);
                 st2 = animateButtonClick textInputValue now2 st1;
                 st3 = run events2 st2
             in currentFrame st2 = 0
                \<and> currentWordCharIndex st2 = 0
                \<and> completedCharacters st2 = []
                \<and> completedCharacters st3 = completedCharacters st1
                \<and> completedCharacters st1 =
                    completedUpTo (supportedWord textInputValue)
                      (length (supportedWord textInputValue))))"
proof -
  let ?w = "supportedWord textInputValue"
  have live: "\<not> animationActive
                (run (nominalFrames now (totalFrames ?w)) (animateButtonClick textInputValue now st))"
    if "reachable st" for st now
    using that assms(2) by (rule click_runs_to_completion)
  have final: "completedCharacters (run events (animateButtonClick textInputValue now st)) =
                 completedUpTo ?w (length ?w)"
    if "\<forall>e \<in> set events. \<not> isClick e"
      and "\<not> animationActive (run events (animateButtonClick textInputValue now st))"
    for events now st
  proof -
    let ?end = "run events (animateButtonClick textInputValue now st)"
    have "animationInv ?end"
      using click_inv by (rule run_animationInv)
    moreover have "wordToAnimate ?end = ?w"
      using that(1) by (simp add: run_word click_started(1) [OF assms(2)])
    ultimately show ?thesis
      using finished_completed [of ?end] that(2) assms(2) by simp
  qed
  have same: "(let st1 = run events1 (animateButtonClick textInputValue now1 st0);
                 st2 = animateButtonClick textInputValue now2 st1;
                 st3 = run events2 st2
             in currentFrame st2 = 0
                \<and> currentWordCharIndex st2 = 0
                \<and> completedCharacters st2 = []
                \<and> completedCharacters st3 = completedCharacters st1
                \<and> completedCharacters st1 = completedUpTo ?w (length ?w))"
    if "\<forall>e \<in> set events1. \<not> isClick e" "\<forall>e \<in> set events2. \<not> isClick e"
      and "\<not> animationActive (run events1 (animateButtonClick textInputValue now1 st0))"
      and "\<not> animationActive
                  (run events2 (animateButtonClick textInputValue now2
                     (run events1 (animateButtonClick textInputValue now1 st0))))"
    for events1 events2
    using final [OF that(1,3)] final [OF that(2,4)]
    by (simp add: Let_def click_started [OF assms(2)])
  from live same show ?thesis
    by blast
qed

text \<open>The word j, submitted twice and run to its end each time.\<close>

theorem resubmit_reproduces_completed_set_witness:
  "reachable (windowOnload (initialWorld 800 600))
   \<and> supportedWord ''j'' \<noteq> []
   \<and> \<not> animationActive
        (run (nominalFrames 0 (totalFrames ''J''))
           (animateButtonClick ''j'' 0 (windowOnload (initialWorld 800 600))))
   \<and> \<not> animationActive
        (run (nominalFrames 5 (totalFrames ''J''))
           (animateButtonClick ''j'' 5
              (run (nominalFrames 0 (totalFrames ''J''))
                 (animateButtonClick ''j'' 0 (windowOnload (initialWorld 800 600))))))
   \<and> completedCharacters
        (run (nominalFrames 5 (totalFrames ''J''))
           (animateButtonClick ''j'' 5
              (run (nominalFrames 0 (totalFrames ''J''))
                 (animateButtonClick ''j'' 0 (windowOnload (initialWorld 800 600))))))
       = completedCharacters
           (run (nominalFrames 0 (totalFrames ''J''))
              (animateButtonClick ''j'' 0 (windowOnload (initialWorld 800 600))))
   \<and> completedCharacters
        (run (nominalFrames 0 (totalFrames ''J''))
           (animateButtonClick ''j'' 0 (windowOnload (initialWorld 800 600))))
       = [\<lparr>charOf = CHR ''J'', processedPoints = compiled (CHR ''J''), xOffset = 0\<rparr>]"
proof -
  let ?W = "windowOnload (initialWorld 800 600)"
  let ?e1 = "nominalFrames 0 (totalFrames ''J'')"
  let ?e2 = "nominalFrames 5 (totalFrames ''J'')"
  let ?st1 = "run ?e1 (animateButtonClick ''j'' 0 ?W)"
  have r0: "reachable ?W"
    by (rule reachable_loaded)
  have ne: "supportedWord ''j'' \<noteq> []"
    by (simp add: supportedWord_j)
  note inst = resubmit_reproduces_completed_set [OF r0 ne, of 0 5, unfolded supportedWord_j]
  have r1: "reachable ?st1"
    using reachable.event [OF r0, of "Click ''j'' 0"] by (simp add: reachable_run)
  have done1: "\<not> animationActive ?st1"
    using inst [THEN conjunct1] r0 by blast
  have done2: "\<not> animationActive (run ?e2 (animateButtonClick ''j'' 5 ?st1))"
    using inst [THEN conjunct1] r1 by blast
  have "(let st1 = ?st1;
             st2 = animateButtonClick ''j'' 5 st1;
             st3 = run ?e2 st2
         in currentFrame st2 = 0
            \<and> currentWordCharIndex st2 = 0
            \<and> completedCharacters st2 = []
            \<and> completedCharacters st3 = completedCharacters st1
            \<and> completedCharacters st1 = completedUpTo ''J'' (length ''J''))"
    using inst [THEN conjunct2] done1 done2 nominalFrames_no_click by blast
  then show ?thesis
    using r0 ne done1 done2
    by (simp add: Let_def completedUpTo_def completedAt_def)
qed

end
